theory Spec2Isabelle
  imports
    Main
    "HOL-Library.Char_ord"
    "HOL-Library.List_Lexorder"
    "HOL-Library.Product_Lexorder"
    "HOL-Library.AList"
    "HOL-Library.Multiset"
begin

section \<open>Strings, tuples and their order\<close>

text \<open>
  Python strings are modelled as \<^typ>\<open>string\<close> (lists of 8-bit characters, compared by
  character code as Python compares by code point); a Python tuple or list of strings is a
  \<^typ>\<open>string list\<close>, compared lexicographically component by component, a proper prefix
  coming first. Both orders are the ones of \<open>Char_ord\<close> and \<open>List_Lexorder\<close>; pairs
  \<open>(key, count)\<close> compare first on the key, then on the count (\<open>Product_Lexorder\<close>), as
  Python tuples do. What depends on the characters beyond ASCII (the method
  \<open>upper()\<close>) is a parameter of the model, and the evaluations use ASCII strings.
\<close>

section \<open>hxl/commands/hxlcount.py\<close>

text \<open>
  \<open>HXLReader(input)\<close> is modelled by the list of rows it yields and \<open>csv.writer(output)\<close> by
  the list of rows handed to \<open>writerow\<close>. The method \<open>row.get(tag)\<close> belongs to the row
  class, which is not part of the two files at hand: it is the parameter \<open>get\<close>, and
  \<^const>\<open>None\<close> stands for the value \<open>False\<close> it returns when the row has nothing under
  the tag.
\<close>

datatype cell = Str string | Num int

definition total_tag :: string where
  "total_tag = ''#x_total_num''"

definition values_step :: "('row \<Rightarrow> string \<Rightarrow> string option) \<Rightarrow> 'row \<Rightarrow> string list \<Rightarrow> string \<Rightarrow> string list" where
  \<comment> \<open>\<open>value = row.get(tag); if value is not False: values.append(value)\<close>\<close>
  "values_step get row values tag =
     (case get row tag of None \<Rightarrow> values | Some v \<Rightarrow> values @ [v])"

definition extract_values :: "('row \<Rightarrow> string \<Rightarrow> string option) \<Rightarrow> string list \<Rightarrow> 'row \<Rightarrow> string list" where
  \<comment> \<open>\<open>values = []; for tag in tags: ...\<close>\<close>
  "extract_values get tags row = foldl (values_step get row) [] tags"

definition stats_step :: "('row \<Rightarrow> string \<Rightarrow> string option) \<Rightarrow> string list \<Rightarrow>
    (string list \<times> int) list \<Rightarrow> 'row \<Rightarrow> (string list \<times> int) list" where
  \<comment> \<open>The body of \<open>for row in parser\<close>. The dictionary \<open>stats\<close> is an association list in
      insertion order; \<open>stats.get(key)\<close> is falsy for a missing key and for a count of 0.\<close>
  "stats_step get tags stats row =
     (let values = extract_values get tags row in
      if values \<noteq> [] then
        (let key = values in
         case map_of stats key of
           Some n \<Rightarrow> if n \<noteq> 0 then AList.update key (n + 1) stats
                     else AList.update key 1 stats
         | None \<Rightarrow> AList.update key 1 stats)
      else stats)"

definition count_rows :: "('row \<Rightarrow> string \<Rightarrow> string option) \<Rightarrow> string list \<Rightarrow> 'row list \<Rightarrow>
    (string list \<times> int) list" where
  "count_rows get tags input = foldl (stats_step get tags) [] input"

definition aggregate_row :: "string list \<times> int \<Rightarrow> cell list" where
  \<comment> \<open>\<open>data = list(aggregate[0]); data.append(aggregate[1])\<close>\<close>
  "aggregate_row aggregate = map Str (fst aggregate) @ [Num (snd aggregate)]"

definition hxlcount :: "('row \<Rightarrow> string \<Rightarrow> string option) \<Rightarrow> 'row list \<Rightarrow> string list \<Rightarrow>
    string list \<times> cell list list" where
  \<comment> \<open>Returns the contents of the caller's list object \<open>tags\<close> after the call, and the rows
      written. \<open>tags.append\<close> changes the list object the caller passed.\<close>
  "hxlcount get input tags =
     (let stats = count_rows get tags input;
          tags' = tags @ [total_tag];
          header = map Str tags'
      in (tags', header # map aggregate_row (sort (stats))))"

definition count_twice :: "('row \<Rightarrow> string \<Rightarrow> string option) \<Rightarrow> 'row list \<Rightarrow> 'row list \<Rightarrow>
    string list \<Rightarrow> string list \<times> cell list list \<times> cell list list" where
  \<comment> \<open>A caller that passes the same list object to two calls:
      \<open>hxlcount(in1, out1, tags); hxlcount(in2, out2, tags)\<close>.\<close>
  "count_twice get input1 input2 tags =
     (let (tags1, out1) = hxlcount get input1 tags;
          (tags2, out2) = hxlcount get input2 tags1
      in (tags2, out1, out2))"

definition tagged_get :: "(string \<times> string) list \<Rightarrow> string \<Rightarrow> string option" where
  \<comment> \<open>Modelled from the spec: \<open>Row.get\<close>, absent from the source files, for a row given as its
      (hashtag, value) cells in schema order: the value of the first column carrying the
      hashtag, or the "not present" indicator.\<close>
  "tagged_get row tag = map_of row tag"

definition occurrences :: "('row \<Rightarrow> string \<Rightarrow> string option) \<Rightarrow> string list \<Rightarrow> 'row list \<Rightarrow> string list \<Rightarrow> int" where
  \<comment> \<open>how many input rows give the value list \<open>key\<close>\<close>
  "occurrences get tags input key = int (length (filter (\<lambda>row. extract_values get tags row = key) input))"

definition demo_input :: "(string \<times> string) list list" where
  "demo_input =
     [[(''#sector'', ''WASH''), (''#adm1'', ''B'')],
      [(''#sector'', ''WASH''), (''#adm1'', ''A'')],
      [(''#org'', ''UN'')],
      [(''#sector'', ''WASH''), (''#adm1'', ''A'')],
      [(''#sector'', ''WASH''), (''#adm1'', ''C'')],
      [(''#sector'', ''WASH''), (''#adm1'', ''C'')],
      [(''#sector'', ''WASH''), (''#adm1'', ''C'')]]"

section \<open>hxl/old_filters/sort.py\<close>

subsection \<open>String methods\<close>

definition endswith :: "string \<Rightarrow> string \<Rightarrow> bool" where
  \<comment> \<open>\<open>s.endswith(suffix)\<close>\<close>
  "endswith s suffix \<longleftrightarrow>
     length suffix \<le> length s \<and> drop (length s - length suffix) s = suffix"

definition ascii_upper_char :: "char \<Rightarrow> char" where
  "ascii_upper_char c =
     (if CHR ''a'' \<le> c \<and> c \<le> CHR ''z'' then char_of (of_char c - (32::nat)) else c)"

definition ascii_upper :: "string \<Rightarrow> string" where
  \<comment> \<open>\<open>s.upper()\<close> on an ASCII string, where every Python version agrees: the letters a to
      z change, nothing else does. The method itself is a field of the environment below;
      this function stands for it in the evaluations, which apply it to ASCII strings only.\<close>
  "ascii_upper s = map ascii_upper_char s"

definition zfill :: "nat \<Rightarrow> string \<Rightarrow> string" where
  \<comment> \<open>\<open>s.zfill(width)\<close>: zeros go to the left, after a leading sign; a string already
      \<open>width\<close> long or longer is returned as it is.\<close>
  "zfill width s =
     (if width \<le> length s then s
      else (let fill = replicate (width - length s) CHR ''0'' in
            case s of
              [] \<Rightarrow> fill
            | c # cs \<Rightarrow> if c = CHR ''+'' \<or> c = CHR ''-'' then c # fill @ cs else fill @ s))"

definition digit_char :: "nat \<Rightarrow> char" where
  "digit_char d = char_of (48 + d)"

fun zero_padded :: "nat \<Rightarrow> nat \<Rightarrow> string" where
  \<comment> \<open>The last \<open>w\<close> decimal digits of \<open>n\<close>, most significant first.\<close>
  "zero_padded 0 n = []"
| "zero_padded (Suc w) n = zero_padded w (n div 10) @ [digit_char (n mod 10)]"

definition strip_zeros :: "string \<Rightarrow> string" where
  \<comment> \<open>a digit string without its leading zeros\<close>
  "strip_zeros ds = (let r = dropWhile (\<lambda>c. c = CHR ''0'') ds in if r = [] then ''0'' else r)"

subsection \<open>Data model and library calls\<close>

datatype exn = ValueError | TypeError | InvalidPatternError | Unmodelled

record column =
  col_header :: string
  col_tag :: string
  col_attributes :: "string list"

record row =
  row_columns :: "column list"
  row_values :: "string list"

record tag_pattern =
  tag :: string
  include_attributes :: "string list"
  exclude_attributes :: "string list"

record dataset =
  ds_columns :: "column list"
  ds_rows :: "row list"

record date =
  year :: nat
  month :: nat
  day :: nat

text \<open>
  The sort filter calls four functions that are not in its file: \<open>pattern.get_value(row)\<close>
  of the tag pattern class (\<^const>\<open>None\<close> is its "not present" result),
  \<open>str(float(raw_value))\<close>, \<open>dateutil.parser.parse(raw_value)\<close> and the string method
  \<open>upper()\<close>, which depends on the Python version outside ASCII. They are the fields of an
  environment; \<open>Inl\<close> carries the exception a call raises, and a parsed date keeps the
  three fields that the format \<open>%Y-%m-%d\<close> reads.
\<close>

record py_env =
  pattern_get_value :: "tag_pattern \<Rightarrow> row \<Rightarrow> string option"
  float_str :: "string option \<Rightarrow> exn + string"
  date_parse :: "string option \<Rightarrow> exn + date"
  str_upper :: "string \<Rightarrow> string"

definition strftime_ymd :: "date \<Rightarrow> string" where
  \<comment> \<open>\<open>d.strftime('%Y-%m-%d')\<close> as CPython gives it on Linux: \<open>%Y\<close> is the decimal year
      without leading zeros (the year of a datetime is between 1 and 9999, and year 999 is
      written \<open>999\<close>); \<open>%m\<close> and \<open>%d\<close> are two digits.\<close>
  "strftime_ymd d =
     strip_zeros (zero_padded 4 (year d)) @ ''-'' @ zero_padded 2 (month d) @ ''-'' @
     zero_padded 2 (day d)"

subsection \<open>SortFilter\<close>

record sort_filter =
  source :: dataset
  sort_tags :: "tag_pattern list"
  reverse :: bool
  iter_attr :: "unit option"

definition SortFilter_init :: "('t list \<Rightarrow> exn + tag_pattern list) \<Rightarrow> dataset \<Rightarrow> 't list \<Rightarrow> bool \<Rightarrow>
    exn + sort_filter" where
  \<comment> \<open>\<open>__init__\<close>; \<open>pattern_list\<close> of \<open>hxl.common\<close> is a parameter, and an exception it
      raises leaves the constructor.\<close>
  "SortFilter_init pattern_list src tags rev_flag =
     (case pattern_list tags of
        Inl e \<Rightarrow> Inl e
      | Inr patterns \<Rightarrow>
          Inr \<lparr>source = src, sort_tags = patterns, reverse = rev_flag, iter_attr = None\<rparr>)"

definition SortFilter_columns :: "sort_filter \<Rightarrow> column list" where
  \<comment> \<open>the property \<open>columns\<close>\<close>
  "SortFilter_columns self = ds_columns (source self)"

definition upper_or_empty :: "(string \<Rightarrow> string) \<Rightarrow> string option \<Rightarrow> string" where
  \<comment> \<open>\<open>raw_value.upper() if raw_value else ''\<close>: the missing value and the empty string are
      falsy.\<close>
  "upper_or_empty upper raw_value =
     (case raw_value of
        None \<Rightarrow> []
      | Some s \<Rightarrow> if s \<noteq> [] then upper s else [])"

definition get_value :: "py_env \<Rightarrow> row \<Rightarrow> tag_pattern \<Rightarrow> exn + string" where
  \<comment> \<open>the closure \<open>get_value(pattern)\<close> inside \<open>make_key(row)\<close>\<close>
  "get_value env row pattern =
     (let raw_value = pattern_get_value env pattern row in
      if endswith (tag pattern) ''_num'' \<or> endswith (tag pattern) ''_deg'' then
        (case float_str env raw_value of
           Inr s \<Rightarrow> Inr (upper_or_empty (str_upper env) (Some (zfill 15 s)))
         | Inl ValueError \<Rightarrow> Inr (upper_or_empty (str_upper env) raw_value)
         | Inl e \<Rightarrow> Inl e)
      else if endswith (tag pattern) ''_date'' then
        (case date_parse env raw_value of
           Inr d \<Rightarrow> Inr (upper_or_empty (str_upper env) (Some (strftime_ymd d)))
         | Inl e \<Rightarrow> Inl e)
      else Inr (upper_or_empty (str_upper env) raw_value))"

fun all_or_error :: "('e + 'a) list \<Rightarrow> 'e + 'a list" where
  \<comment> \<open>Evaluating a sequence of calls in order: the first exception ends it.\<close>
  "all_or_error [] = Inr []"
| "all_or_error (x # xs) =
     (case x of
        Inl e \<Rightarrow> Inl e
      | Inr v \<Rightarrow> (case all_or_error xs of Inl e \<Rightarrow> Inl e | Inr vs \<Rightarrow> Inr (v # vs)))"

definition make_key :: "py_env \<Rightarrow> sort_filter \<Rightarrow> row \<Rightarrow> exn + string list" where
  "make_key env self row =
     (if sort_tags self \<noteq> [] then all_or_error (map (get_value env row) (sort_tags self))
      else Inr (row_values row))"

definition py_sorted :: "('a \<Rightarrow> 'k::linorder) \<Rightarrow> bool \<Rightarrow> 'a list \<Rightarrow> 'a list" where
  \<comment> \<open>The built-in \<open>sorted(xs, key=..., reverse=...)\<close> once the keys are known: a stable
      sort; with \<open>reverse\<close> the list is reversed, sorted stably and reversed again, so
      that equal elements keep their order.\<close>
  "py_sorted key rev_flag xs =
     (if rev_flag then rev (sort_key key (rev xs)) else sort_key key xs)"

definition SortFilter_iter :: "py_env \<Rightarrow> sort_filter \<Rightarrow> exn + row list" where
  \<comment> \<open>\<open>__iter__\<close>: \<open>sorted\<close> calls \<open>make_key\<close> on every row of the source, in order,
      before it compares; an exception from a key leaves \<open>__iter__\<close>.\<close>
  "SortFilter_iter env self =
     (case all_or_error (map (make_key env self) (ds_rows (source self))) of
        Inl e \<Rightarrow> Inl e
      | Inr keys \<Rightarrow>
          Inr (map snd (py_sorted fst (reverse self) (zip keys (ds_rows (source self))))))"

definition iterate :: "py_env \<Rightarrow> sort_filter \<Rightarrow> sort_filter \<times> (exn + row list)" where
  \<comment> \<open>The object after \<open>__iter__\<close> together with the result: \<open>__iter__\<close> assigns no
      attribute of \<open>self\<close>.\<close>
  "iterate env self = (self, SortFilter_iter env self)"

subsection \<open>The absent calls on the inputs where their result is certain\<close>

definition match :: "tag_pattern \<Rightarrow> column \<Rightarrow> bool" where
  \<comment> \<open>Modelled from the spec: \<open>TagPattern.match\<close>, absent from the source files: the
      hashtags are equal, every required attribute is on the column and no excluded one is.\<close>
  "match pattern col \<longleftrightarrow>
     col_tag col = tag pattern \<and>
     list_all (\<lambda>a. a \<in> set (col_attributes col)) (include_attributes pattern) \<and>
     list_all (\<lambda>a. a \<notin> set (col_attributes col)) (exclude_attributes pattern)"

fun first_match :: "tag_pattern \<Rightarrow> column list \<Rightarrow> string list \<Rightarrow> string option" where
  "first_match pattern (c # cs) (v # vs) =
     (if match pattern c then Some v else first_match pattern cs vs)"
| "first_match pattern _ _ = None"

definition TagPattern_get_value :: "tag_pattern \<Rightarrow> row \<Rightarrow> string option" where
  \<comment> \<open>Modelled from the spec: \<open>TagPattern.get_value\<close>, absent from the source files: the
      row's columns are scanned in schema order and the value under the first matching
      column is returned, or the "not present" indicator.\<close>
  "TagPattern_get_value pattern row = first_match pattern (row_columns row) (row_values row)"

definition is_digit :: "char \<Rightarrow> bool" where
  "is_digit c \<longleftrightarrow> CHR ''0'' \<le> c \<and> c \<le> CHR ''9''"

definition float_str_model :: "string option \<Rightarrow> exn + string" where
  \<comment> \<open>\<open>str(float(x))\<close> where it does not depend on the Python version or on rounding:
      an optional sign and one to twelve decimal digits give the integer followed by
      \<open>.0\<close>; a string with no digit and no letter n is neither a number nor inf, infinity or
      nan, and \<open>float\<close> raises ValueError; \<open>float(None)\<close> raises TypeError. Any other
      input stops the model.\<close>
  "float_str_model raw =
     (case raw of
        None \<Rightarrow> Inl TypeError
      | Some s \<Rightarrow>
          (let (sign, ds) =
                 (case s of
                    [] \<Rightarrow> ([], s)
                  | c # cs \<Rightarrow> if c = CHR ''-'' then (''-'', cs)
                             else if c = CHR ''+'' then ([], cs) else ([], s))
           in if ds \<noteq> [] \<and> length ds \<le> 12 \<and> list_all is_digit ds
              then Inr (sign @ strip_zeros ds @ ''.0'')
              else if \<not> list_ex is_digit s \<and> \<not> list_ex (\<lambda>c. c = CHR ''n'' \<or> c = CHR ''N'') s
              then Inl ValueError
              else Inl Unmodelled))"

definition digits_value :: "string \<Rightarrow> nat" where
  "digits_value ds = foldl (\<lambda>n c. 10 * n + (of_char c - 48)) 0 ds"

definition date_parse_model :: "string option \<Rightarrow> exn + date" where
  \<comment> \<open>\<open>dateutil.parser.parse(x)\<close> where its result is certain: a string of the form
      \<open>YYYY-MM-DD\<close> with a year from 0100, a month from 01 to 12 and a day from 01 to 28 is
      that date; a non-empty string of letters x holds no date token and \<open>parse\<close> raises
      ValueError; \<open>parse(None)\<close> raises TypeError. Any other input stops the model.\<close>
  "date_parse_model raw =
     (case raw of
        None \<Rightarrow> Inl TypeError
      | Some s \<Rightarrow>
          (let y = digits_value (take 4 s);
               m = digits_value (take 2 (drop 5 s));
               d = digits_value (take 2 (drop 8 s))
           in if length s = 10 \<and> s ! 4 = CHR ''-'' \<and> s ! 7 = CHR ''-'' \<and>
                 list_all is_digit (take 4 s) \<and> list_all is_digit (take 2 (drop 5 s)) \<and>
                 list_all is_digit (take 2 (drop 8 s)) \<and>
                 100 \<le> y \<and> 1 \<le> m \<and> m \<le> 12 \<and> 1 \<le> d \<and> d \<le> 28
              then Inr \<lparr>year = y, month = m, day = d\<rparr>
              else if s \<noteq> [] \<and> list_all (\<lambda>c. c = CHR ''x'') s then Inl ValueError
              else Inl Unmodelled))"

definition python_model :: py_env where
  "python_model =
     \<lparr>pattern_get_value = TagPattern_get_value,
      float_str = float_str_model,
      date_parse = date_parse_model,
      str_upper = ascii_upper\<rparr>"

definition tagged_row :: "(string \<times> string) list \<Rightarrow> row" where
  \<comment> \<open>A row given by its (hashtag, value) cells, the columns carrying no attribute.\<close>
  "tagged_row cells =
     \<lparr>row_columns = map (\<lambda>(t, v). \<lparr>col_header = [], col_tag = t, col_attributes = []\<rparr>) cells,
      row_values = map snd cells\<rparr>"

definition plain_pattern :: "string \<Rightarrow> tag_pattern" where
  "plain_pattern t = \<lparr>tag = t, include_attributes = [], exclude_attributes = []\<rparr>"

definition tagged_dataset :: "(string \<times> string) list list \<Rightarrow> dataset" where
  "tagged_dataset cellss =
     \<lparr>ds_columns = (case cellss of [] \<Rightarrow> [] | cells # _ \<Rightarrow> row_columns (tagged_row cells)),
      ds_rows = map tagged_row cellss\<rparr>"

definition tagged_filter :: "string list \<Rightarrow> bool \<Rightarrow> (string \<times> string) list list \<Rightarrow> sort_filter" where
  "tagged_filter tags rev_flag cellss =
     \<lparr>source = tagged_dataset cellss, sort_tags = map plain_pattern tags,
      reverse = rev_flag, iter_attr = None\<rparr>"

definition two_key_input :: "(string \<times> string) list list" where
  "two_key_input =
     [[(''#sector'', ''b''), (''#org'', ''x''), (''#id'', ''1'')],
      [(''#sector'', ''a''), (''#org'', ''z''), (''#id'', ''2'')],
      [(''#sector'', ''a''), (''#org'', ''b''), (''#id'', ''3'')],
      [(''#sector'', ''B''), (''#org'', ''X''), (''#id'', ''4'')]]"

section \<open>Properties of the count stage\<close>

lemma extract_values_map_filter: "extract_values get tags row = List.map_filter (get row) tags"
proof -
  have "foldl (values_step get row) acc tags = acc @ List.map_filter (get row) tags" for acc
    by (induction tags arbitrary: acc) (auto simp: values_step_def List.map_filter_simps split: option.splits)
  then show ?thesis by (simp add: extract_values_def)
qed

lemma count_rows_snoc: "count_rows get tags (input @ [row]) = stats_step get tags (count_rows get tags input) row"
  by (simp add: count_rows_def)

lemma count_rows_inv:
  "distinct (map fst (count_rows get tags input)) \<and>
   (\<forall>key. map_of (count_rows get tags input) key =
      (if key \<noteq> [] \<and> 0 < occurrences get tags input key
       then Some (occurrences get tags input key) else None))"
proof (induction input rule: rev_induct)
  case Nil
  show ?case by (simp add: count_rows_def occurrences_def)
next
  case (snoc row input)
  let ?S = "count_rows get tags input"
  let ?v = "extract_values get tags row"
  have d: "distinct (map fst ?S)" and m: "\<And>key. map_of ?S key =
      (if key \<noteq> [] \<and> 0 < occurrences get tags input key
       then Some (occurrences get tags input key) else None)"
    using snoc.IH by auto
  have occ: "\<And>key. occurrences get tags (input @ [row]) key =
      occurrences get tags input key + (if ?v = key then 1 else 0)"
    by (simp add: occurrences_def)
  have nn: "\<And>key. 0 \<le> occurrences get tags input key" by (simp add: occurrences_def)
  show ?case
  proof (cases "?v = []")
    case True
    then have "count_rows get tags (input @ [row]) = ?S"
      by (simp add: count_rows_snoc stats_step_def)
    then show ?thesis using d m occ True by auto
  next
    case False
    show ?thesis
    proof (cases "map_of ?S ?v")
      case None
      then have e: "count_rows get tags (input @ [row]) = AList.update ?v 1 ?S"
        using False by (simp add: count_rows_snoc stats_step_def Let_def)
      have z: "occurrences get tags input ?v = 0" using None m[of ?v] False nn[of ?v]
        by (auto split: if_splits)
      show ?thesis unfolding e using d m occ z False
        by (auto simp: distinct_update update_conv')
    next
      case (Some n)
      then have n: "n = occurrences get tags input ?v" "0 < n"
        using m[of ?v] by (auto split: if_splits)
      then have e: "count_rows get tags (input @ [row]) = AList.update ?v (n + 1) ?S"
        using False Some by (simp add: count_rows_snoc stats_step_def Let_def)
      show ?thesis unfolding e using d m occ n False nn
        by (auto simp: distinct_update update_conv')
    qed
  qed
qed

lemma sum_update_new:
  "k \<notin> fst ` set al \<Longrightarrow> sum_list (map snd (AList.update k v al)) = sum_list (map snd al) + (v::int)"
  by (induction al) auto

lemma sum_update_old:
  "map_of al k = Some n \<Longrightarrow> distinct (map fst al) \<Longrightarrow>
   sum_list (map snd (AList.update k v al)) = sum_list (map snd al) - n + (v::int)"
  by (induction al) (auto simp: image_iff)

lemma count_rows_sum:
  "sum_list (map snd (count_rows get tags input)) =
     int (length (filter (\<lambda>row. extract_values get tags row \<noteq> []) input))"
proof (induction input rule: rev_induct)
  case Nil
  show ?case by (simp add: count_rows_def)
next
  case (snoc row input)
  let ?S = "count_rows get tags input"
  let ?v = "extract_values get tags row"
  note inv = count_rows_inv[of get tags input]
  show ?case
  proof (cases "?v = []")
    case True
    then show ?thesis using snoc.IH by (simp add: count_rows_snoc stats_step_def)
  next
    case False
    show ?thesis
    proof (cases "map_of ?S ?v")
      case None
      then have e: "count_rows get tags (input @ [row]) = AList.update ?v 1 ?S"
        using False by (simp add: count_rows_snoc stats_step_def Let_def)
      have "?v \<notin> fst ` set ?S" using None by (simp add: map_of_eq_None_iff)
      then show ?thesis unfolding e using snoc.IH False by (simp add: sum_update_new)
    next
      case (Some n)
      then have "0 < n" using inv by (auto split: if_splits)
      then have e: "count_rows get tags (input @ [row]) = AList.update ?v (n + 1) ?S"
        using False Some by (simp add: count_rows_snoc stats_step_def Let_def)
      show ?thesis unfolding e using snoc.IH False inv Some by (simp add: sum_update_old)
    qed
  qed
qed

lemma sum_list_sort: "sum_list (map snd (sort xs)) = sum_list (map snd (xs :: (string list \<times> int) list))"
proof -
  have "mset (map snd (sort xs)) = mset (map snd xs)" by simp
  then show ?thesis by (metis sum_mset_sum_list)
qed

lemma sorted_fst: "sorted (xs :: (string list \<times> int) list) \<Longrightarrow> sorted (map fst xs)"
  by (induction xs) (auto simp: less_eq_prod_def)

lemma keys_strict: "sorted_wrt (<) (map fst (sort (count_rows get tags input)))"
proof -
  let ?xs = "sort (count_rows get tags input)"
  have "distinct (map fst ?xs)"
    using count_rows_inv[of get tags input]
    by (metis distinct_map set_sort distinct_sort) 
  moreover have "sorted (map fst ?xs)" by (rule sorted_fst) simp
  ultimately show ?thesis by (simp add: strict_sorted_iff)
qed

lemma in_count_rows_iff:
  "(key, n) \<in> set (count_rows get tags input) \<longleftrightarrow>
     key \<noteq> [] \<and> 0 < n \<and> n = occurrences get tags input key"
  using count_rows_inv[of get tags input]
  by (metis map_of_eq_Some_iff option.inject option.simps(3))

lemma demo_stats: "count_rows tagged_get [''#sector'', ''#adm1''] demo_input =
   [([''WASH'', ''B''], 1), ([''WASH'', ''A''], 2), ([''WASH'', ''C''], 3)]"
  by (simp add: count_rows_def stats_step_def extract_values_def values_step_def tagged_get_def demo_input_def)

lemma demo_eval: "snd (hxlcount tagged_get demo_input [''#sector'', ''#adm1'']) =
     [[Str ''#sector'', Str ''#adm1'', Str ''#x_total_num''],
      [Str ''WASH'', Str ''A'', Num 2],
      [Str ''WASH'', Str ''B'', Num 1],
      [Str ''WASH'', Str ''C'', Num 3]]"
  by (simp add: hxlcount_def demo_stats aggregate_row_def total_tag_def)

lemma occurrences_pos:
  "0 < occurrences get tags input key \<longleftrightarrow> key \<in> extract_values get tags ` set input"
proof -
  have "0 < occurrences get tags input key \<longleftrightarrow>
        filter (\<lambda>row. extract_values get tags row = key) input \<noteq> []"
    by (simp add: occurrences_def)
  also have "\<dots> \<longleftrightarrow> (\<exists>row \<in> set input. extract_values get tags row = key)"
    by (simp add: filter_empty_conv)
  also have "\<dots> \<longleftrightarrow> key \<in> extract_values get tags ` set input"
    by (simp add: image_iff eq_commute)
  finally show ?thesis .
qed

lemma in_sorted_stats_iff:
  "(key, n) \<in> set (sort (count_rows get tags input)) \<longleftrightarrow>
     key \<noteq> [] \<and> 0 < n \<and> n = occurrences get tags input key"
  by (simp add: in_count_rows_iff)

lemma sorted_stats_keys:
  "fst ` set (sort (count_rows get tags input)) = extract_values get tags ` set input - {[]}"
proof (rule set_eqI)
  fix key
  have "key \<in> fst ` set (sort (count_rows get tags input)) \<longleftrightarrow>
        (\<exists>n. (key, n) \<in> set (sort (count_rows get tags input)))"
    by force
  also have "\<dots> \<longleftrightarrow> key \<noteq> [] \<and> 0 < occurrences get tags input key"
    unfolding in_sorted_stats_iff by simp
  also have "\<dots> \<longleftrightarrow> key \<in> extract_values get tags ` set input - {[]}"
    unfolding occurrences_pos by blast
  finally show "key \<in> fst ` set (sort (count_rows get tags input)) \<longleftrightarrow>
      key \<in> extract_values get tags ` set input - {[]}" .
qed

lemma sorted_stats_counts:
  "\<forall>(key, n) \<in> set (sort (count_rows get tags input)).
     n = int (length (filter (\<lambda>row. extract_values get tags row = key) input))"
proof (rule ballI)
  fix x assume x: "x \<in> set (sort (count_rows get tags input))"
  obtain key n where kn: "x = (key, n)" by (cases x)
  from x kn have "n = occurrences get tags input key"
    using in_sorted_stats_iff[of key n get tags input] by simp
  then show "case x of (key, n) \<Rightarrow>
     n = int (length (filter (\<lambda>row. extract_values get tags row = key) input))"
    using kn by (simp add: occurrences_def)
qed

lemma sorted_stats_sum:
  "sum_list (map snd (sort (count_rows get tags input))) =
     int (length input) - int (length (filter (\<lambda>row. extract_values get tags row = []) input))"
proof -
  have "length (filter (\<lambda>row. extract_values get tags row \<noteq> []) input)
       + length (filter (\<lambda>row. extract_values get tags row = []) input) = length input"
    using sum_length_filter_compl[of "\<lambda>row. extract_values get tags row = []" input]
    by simp
  then have "int (length (filter (\<lambda>row. extract_values get tags row \<noteq> []) input)) =
     int (length input) - int (length (filter (\<lambda>row. extract_values get tags row = []) input))"
    by linarith
  then show ?thesis
    by (simp only: sum_list_sort count_rows_sum)
qed

text \<open>
  Claim C1. For every input row sequence and every tag list, the count stage writes, after
  the header, exactly one row per distinct non-empty list of extracted values; its trailing
  count is the number of input rows giving that list; a tag under which a row has nothing
  is skipped for that row only; a row whose value list is empty is counted nowhere, so the
  counts add up to the number of input rows minus the number of rows with an empty list.
\<close>

theorem hxlcount_counts:
  "\<exists>items. snd (hxlcount get input tags) = map Str (tags @ [''#x_total_num'']) # map aggregate_row items
     \<and> distinct (map fst items)
     \<and> fst ` set items = extract_values get tags ` set input - {[]}
     \<and> (\<forall>(key, n) \<in> set items.
           n = int (length (filter (\<lambda>row. extract_values get tags row = key) input)))
     \<and> sum_list (map snd items) =
         int (length input) - int (length (filter (\<lambda>row. extract_values get tags row = []) input))
     \<and> (\<forall>row \<in> set input. extract_values get tags row = List.map_filter (get row) tags)"
proof -
  let ?items = "sort (count_rows get tags input)"
  have 1: "snd (hxlcount get input tags) = map Str (tags @ [''#x_total_num'']) # map aggregate_row ?items"
    by (simp add: hxlcount_def total_tag_def Let_def)
  have 2: "distinct (map fst ?items)"
    using keys_strict[of get tags input] by (simp add: strict_sorted_iff)
  have 6: "\<forall>row \<in> set input. extract_values get tags row = List.map_filter (get row) tags"
    by (simp add: extract_values_map_filter)
  show ?thesis
    apply (rule exI[of _ ?items])
    apply (intro conjI)
         apply (rule 1)
        apply (rule 2)
       apply (rule sorted_stats_keys)
      apply (rule sorted_stats_counts)
     apply (rule sorted_stats_sum)
    apply (rule 6)
    done
qed

theorem hxlcount_counts_witness:
  "snd (hxlcount tagged_get demo_input [''#sector'', ''#adm1'']) =
     [[Str ''#sector'', Str ''#adm1'', Str ''#x_total_num''],
      [Str ''WASH'', Str ''A'', Num 2],
      [Str ''WASH'', Str ''B'', Num 1],
      [Str ''WASH'', Str ''C'', Num 3]]
   \<and> extract_values tagged_get [''#sector'', ''#adm1''] [(''#org'', ''UN'')] = []
   \<and> (\<exists>items. snd (hxlcount tagged_get demo_input [''#sector'', ''#adm1'']) =
          map Str ([''#sector'', ''#adm1''] @ [''#x_total_num'']) # map aggregate_row items
        \<and> sum_list (map snd items) = 6)"
proof -
  have ev: "snd (hxlcount tagged_get demo_input [''#sector'', ''#adm1'']) =
     [[Str ''#sector'', Str ''#adm1'', Str ''#x_total_num''],
      [Str ''WASH'', Str ''A'', Num 2],
      [Str ''WASH'', Str ''B'', Num 1],
      [Str ''WASH'', Str ''C'', Num 3]]"
    by (simp add: hxlcount_def demo_stats aggregate_row_def total_tag_def)
  have ab: "extract_values tagged_get [''#sector'', ''#adm1''] [(''#org'', ''UN'')] = []"
    by (simp add: extract_values_def values_step_def tagged_get_def)
  have n: "int (length demo_input) - int (length (filter (\<lambda>row. extract_values tagged_get [''#sector'', ''#adm1''] row = []) demo_input)) = 6"
    by (simp add: demo_input_def extract_values_def values_step_def tagged_get_def)
  from hxlcount_counts[of tagged_get demo_input "[''#sector'', ''#adm1'']"]
  obtain items where
    i1: "snd (hxlcount tagged_get demo_input [''#sector'', ''#adm1'']) =
          map Str ([''#sector'', ''#adm1''] @ [''#x_total_num'']) # map aggregate_row items"
    and i5: "sum_list (map snd items) = int (length demo_input) - int (length (filter (\<lambda>row. extract_values tagged_get [''#sector'', ''#adm1''] row = []) demo_input))"
    by blast
  from i1 i5 n
  have "\<exists>items. snd (hxlcount tagged_get demo_input [''#sector'', ''#adm1'']) =
          map Str ([''#sector'', ''#adm1''] @ [''#x_total_num'']) # map aggregate_row items
        \<and> sum_list (map snd items) = 6"
    by auto
  with ev ab show ?thesis by blast
qed

text \<open>
  Claim C3. The count stage writes first the header, the requested tags followed by
  \<open>#x_total_num\<close>, and then the aggregates in strictly ascending lexicographic order of
  their value lists, each row being the values followed by the count.
\<close>

theorem hxlcount_output_order:
  "\<exists>items. snd (hxlcount get input tags) =
       map Str (tags @ [''#x_total_num'']) # map (\<lambda>(key, n). map Str key @ [Num n]) items
     \<and> sorted_wrt (<) (map fst items)
     \<and> set items = set (count_rows get tags input)"
proof -
  let ?items = "sort (count_rows get tags input)"
  have "aggregate_row = (\<lambda>(key, n). map Str key @ [Num n])"
    by (auto simp: aggregate_row_def fun_eq_iff)
  then have "snd (hxlcount get input tags) =
       map Str (tags @ [''#x_total_num'']) # map (\<lambda>(key, n). map Str key @ [Num n]) ?items"
    by (simp add: hxlcount_def total_tag_def Let_def)
  moreover have "sorted_wrt (<) (map fst ?items)" by (rule keys_strict)
  moreover have "set ?items = set (count_rows get tags input)" by simp
  ultimately show ?thesis by blast
qed

theorem hxlcount_output_order_witness:
  "count_rows tagged_get [''#sector'', ''#adm1''] demo_input =
     [([''WASH'', ''B''], 1), ([''WASH'', ''A''], 2), ([''WASH'', ''C''], 3)]
   \<and> snd (hxlcount tagged_get demo_input [''#sector'', ''#adm1'']) =
     [[Str ''#sector'', Str ''#adm1'', Str ''#x_total_num''],
      [Str ''WASH'', Str ''A'', Num 2],
      [Str ''WASH'', Str ''B'', Num 1],
      [Str ''WASH'', Str ''C'', Num 3]]
   \<and> (\<exists>items. snd (hxlcount tagged_get demo_input [''#sector'', ''#adm1'']) =
       map Str ([''#sector'', ''#adm1''] @ [''#x_total_num'']) # map (\<lambda>(key, n). map Str key @ [Num n]) items
     \<and> sorted_wrt (<) (map fst items)
     \<and> set items = set (count_rows tagged_get [''#sector'', ''#adm1''] demo_input))"
proof -
  have ev: "snd (hxlcount tagged_get demo_input [''#sector'', ''#adm1'']) =
     [[Str ''#sector'', Str ''#adm1'', Str ''#x_total_num''],
      [Str ''WASH'', Str ''A'', Num 2],
      [Str ''WASH'', Str ''B'', Num 1],
      [Str ''WASH'', Str ''C'', Num 3]]"
    by (simp add: hxlcount_def demo_stats aggregate_row_def total_tag_def)
  show ?thesis
    using demo_stats ev hxlcount_output_order[of tagged_get demo_input "[''#sector'', ''#adm1'']"]
    by blast
qed

lemma extract_values_append:
  "extract_values get (tags @ [t]) row =
     extract_values get tags row @ (case get row t of None \<Rightarrow> [] | Some v \<Rightarrow> [v])"
  by (simp add: extract_values_def values_step_def split: option.splits)

text \<open>
  Claim C10. \<open>hxlcount\<close> changes the caller's list of tags: after a call the list is one
  longer and ends with \<open>#x_total_num\<close>; a caller that passes the same list to a second
  call gets a header with \<open>#x_total_num\<close> twice, and the second call groups on the
  synthetic tag as well.
\<close>

theorem hxlcount_mutates_tags:
  "fst (hxlcount get input tags) = tags @ [''#x_total_num'']
   \<and> length (fst (hxlcount get input tags)) = length tags + 1
   \<and> fst (count_twice get input1 input2 tags) = tags @ [''#x_total_num'', ''#x_total_num'']
   \<and> hd (snd (snd (count_twice get input1 input2 tags))) =
        map Str (tags @ [''#x_total_num'', ''#x_total_num''])
   \<and> tl (snd (snd (count_twice get input1 input2 tags))) =
        map aggregate_row (sort (count_rows get (tags @ [''#x_total_num'']) input2))
   \<and> extract_values get (tags @ [''#x_total_num'']) row =
        extract_values get tags row @ (case get row ''#x_total_num'' of None \<Rightarrow> [] | Some v \<Rightarrow> [v])"
  by (simp add: hxlcount_def count_twice_def total_tag_def Let_def extract_values_append)

section \<open>Properties of the sort filter\<close>

lemma all_or_error_map_Inr: "all_or_error (map Inr vs) = Inr vs"
  by (induction vs) auto

lemma all_or_error_Inr_D: "all_or_error xs = Inr vs \<Longrightarrow> xs = map Inr vs"
  by (induction xs arbitrary: vs) (auto split: sum.splits)

lemma all_or_error_Inr_iff: "all_or_error xs = Inr vs \<longleftrightarrow> xs = map Inr vs"
  using all_or_error_map_Inr all_or_error_Inr_D by blast

lemma all_or_error_Inl: "all_or_error xs = Inl e \<Longrightarrow> Inl e \<in> set xs"
  by (induction xs) (auto split: sum.splits)

lemma all_or_error_Inl_ex: "Inl e \<in> set xs \<Longrightarrow> \<exists>e'. all_or_error xs = Inl e'"
  by (induction xs) (auto split: sum.splits)

lemma all_or_error_total:
  "(\<And>x. x \<in> set xs \<Longrightarrow> \<exists>v. x = Inr v) \<Longrightarrow> \<exists>vs. all_or_error xs = Inr vs"
proof (induction xs)
  case Nil
  show ?case by simp
next
  case (Cons x xs)
  from Cons.prems[of x] obtain v where v: "x = Inr v" by auto
  from Cons.IH Cons.prems obtain vs where "all_or_error xs = Inr vs" by auto
  with v show ?case by simp
qed

lemma zip_map_filter_snd:
  "map snd (filter (\<lambda>p. fst p = k) (zip (map f xs) xs)) = filter (\<lambda>x. f x = k) xs"
  by (induction xs) auto

lemma py_sorted_stable:
  "filter (\<lambda>y. key y = k) (py_sorted key r xs) = filter (\<lambda>y. key y = k) xs"
proof (cases r)
  case False
  then show ?thesis by (simp add: py_sorted_def sort_key_stable)
next
  case True
  have "filter (\<lambda>y. key y = k) (rev (sort_key key (rev xs))) =
        rev (filter (\<lambda>y. key y = k) (sort_key key (rev xs)))"
    by (simp add: rev_filter)
  also have "\<dots> = rev (filter (\<lambda>y. key y = k) (rev xs))"
    by (simp only: sort_key_stable)
  also have "\<dots> = filter (\<lambda>y. key y = k) xs"
    by (simp add: rev_filter)
  finally show ?thesis using True by (simp add: py_sorted_def)
qed

lemma py_sorted_mset: "mset (py_sorted key r xs) = mset xs"
  by (simp add: py_sorted_def)

lemma py_sorted_order:
  "if r then sorted (rev (map key (py_sorted key r xs))) else sorted (map key (py_sorted key r xs))"
  by (simp add: py_sorted_def rev_map)

lemma iter_Inr_keys:
  assumes "SortFilter_iter env self = Inr out"
  obtains keys where "map (make_key env self) (ds_rows (source self)) = map Inr keys"
    and "out = map snd (py_sorted fst (reverse self) (zip keys (ds_rows (source self))))"
  using assms by (auto simp: SortFilter_iter_def all_or_error_Inr_iff split: sum.splits)

lemma zip_keys_filter:
  "map f xs = map Inr keys \<Longrightarrow>
   map snd (filter (\<lambda>p. fst p = k) (zip keys xs)) = filter (\<lambda>x. f x = Inr k) xs"
proof (induction xs arbitrary: keys)
  case Nil
  then show ?case by simp
next
  case (Cons x xs)
  then obtain k' ks where ks: "keys = k' # ks" "f x = Inr k'" "map f xs = map Inr ks"
    by (cases keys) auto
  with Cons.IH[of ks] show ?case by auto
qed

lemma zip_keys_member:
  "map f xs = map Inr keys \<Longrightarrow> p \<in> set (zip keys xs) \<Longrightarrow> f (snd p) = Inr (fst p)"
proof (induction xs arbitrary: keys)
  case Nil
  then show ?case by simp
next
  case (Cons x xs)
  then obtain k' ks where ks: "keys = k' # ks" "f x = Inr k'" "map f xs = map Inr ks"
    by (cases keys) auto
  with Cons.IH[of ks] Cons.prems show ?case by auto
qed

lemma lex_less_equal_length:
  fixes k1 k2 :: "('a::linorder) list"
  assumes "length k1 = length k2"
  shows "k1 < k2 \<longleftrightarrow> (\<exists>i<length k1. take i k1 = take i k2 \<and> k1 ! i < k2 ! i)"
  using assms
proof (induction k1 k2 rule: list_induct2)
  case Nil
  show ?case by simp
next
  case (Cons a x b y)
  have "(\<exists>i<length (a # x). take i (a # x) = take i (b # y) \<and> (a # x) ! i < (b # y) ! i) \<longleftrightarrow>
        a < b \<or> (a = b \<and> (\<exists>j<length x. take j x = take j y \<and> x ! j < y ! j))"
    (is "?L \<longleftrightarrow> ?R")
  proof
    assume ?L
    then obtain i where i: "i < length (a # x)" "take i (a # x) = take i (b # y)"
      "(a # x) ! i < (b # y) ! i" by blast
    show ?R
    proof (cases i)
      case 0
      with i show ?thesis by simp
    next
      case (Suc j)
      with i show ?thesis by auto
    qed
  next
    assume ?R
    then show ?L
    proof
      assume "a < b"
      then have "0 < length (a # x) \<and> take 0 (a # x) = take 0 (b # y) \<and> (a # x) ! 0 < (b # y) ! 0"
        by simp
      then show ?L by blast
    next
      assume "a = b \<and> (\<exists>j<length x. take j x = take j y \<and> x ! j < y ! j)"
      then obtain j where "a = b" "j < length x" "take j x = take j y" "x ! j < y ! j" by blast
      then have "Suc j < length (a # x) \<and> take (Suc j) (a # x) = take (Suc j) (b # y)
          \<and> (a # x) ! Suc j < (b # y) ! Suc j"
        by simp
      then show ?L by blast
    qed
  qed
  with Cons.IH show ?case by simp
qed

lemma iter_stable:
  assumes "SortFilter_iter env self = Inr out"
  shows "filter (\<lambda>r. make_key env self r = Inr k) out =
         filter (\<lambda>r. make_key env self r = Inr k) (ds_rows (source self))"
proof -
  let ?rows = "ds_rows (source self)"
  from assms obtain keys where keys: "map (make_key env self) ?rows = map Inr keys"
    and out: "out = map snd (py_sorted fst (reverse self) (zip keys ?rows))"
    by (rule iter_Inr_keys)
  let ?ps = "zip keys ?rows"
  let ?sp = "py_sorted fst (reverse self) ?ps"
  have set_sp: "set ?sp = set ?ps"
    using py_sorted_mset[of fst "reverse self" ?ps] by (metis set_mset_mset)
  have "filter (\<lambda>r. make_key env self r = Inr k) out =
        map snd (filter (\<lambda>p. make_key env self (snd p) = Inr k) ?sp)"
    by (simp add: out filter_map comp_def)
  also have "filter (\<lambda>p. make_key env self (snd p) = Inr k) ?sp = filter (\<lambda>p. fst p = k) ?sp"
  proof (rule filter_cong[OF refl])
    fix p assume "p \<in> set ?sp"
    then have "p \<in> set ?ps" using set_sp by simp
    then have "make_key env self (snd p) = Inr (fst p)" by (rule zip_keys_member[OF keys])
    then show "(make_key env self (snd p) = Inr k) = (fst p = k)" by simp
  qed
  also have "\<dots> = filter (\<lambda>p. fst p = k) ?ps" by (rule py_sorted_stable)
  also have "map snd \<dots> = filter (\<lambda>r. make_key env self r = Inr k) ?rows"
    by (rule zip_keys_filter[OF keys])
  finally show ?thesis .
qed

lemma iter_mset:
  assumes "SortFilter_iter env self = Inr out"
  shows "mset out = mset (ds_rows (source self))"
proof -
  let ?rows = "ds_rows (source self)"
  from assms obtain keys where keys: "map (make_key env self) ?rows = map Inr keys"
    and out: "out = map snd (py_sorted fst (reverse self) (zip keys ?rows))"
    by (rule iter_Inr_keys)
  have len: "length keys = length ?rows" using keys by (metis length_map)
  have "mset out = image_mset snd (mset (py_sorted fst (reverse self) (zip keys ?rows)))"
    by (simp add: out)
  also have "\<dots> = image_mset snd (mset (zip keys ?rows))" by (simp only: py_sorted_mset)
  also have "\<dots> = mset (map snd (zip keys ?rows))" by simp
  also have "\<dots> = mset ?rows" using len by simp
  finally show ?thesis .
qed

lemma iter_keys_sorted:
  assumes "SortFilter_iter env self = Inr out"
  shows "\<exists>keys. map (make_key env self) out = map Inr keys
           \<and> (if reverse self then sorted (rev keys) else sorted keys)"
proof -
  let ?rows = "ds_rows (source self)"
  from assms obtain keys where keys: "map (make_key env self) ?rows = map Inr keys"
    and out: "out = map snd (py_sorted fst (reverse self) (zip keys ?rows))"
    by (rule iter_Inr_keys)
  let ?sp = "py_sorted fst (reverse self) (zip keys ?rows)"
  have set_sp: "set ?sp = set (zip keys ?rows)"
    using py_sorted_mset[of fst "reverse self" "zip keys ?rows"] by (metis set_mset_mset)
  have "map (make_key env self) out = map (\<lambda>p. make_key env self (snd p)) ?sp"
    by (simp add: out comp_def)
  also have "\<dots> = map (\<lambda>p. Inr (fst p)) ?sp"
  proof (rule map_cong[OF refl])
    fix p assume "p \<in> set ?sp"
    then have "p \<in> set (zip keys ?rows)" using set_sp by simp
    then show "make_key env self (snd p) = Inr (fst p)" by (rule zip_keys_member[OF keys])
  qed
  also have "\<dots> = map Inr (map fst ?sp)" by simp
  finally have 1: "map (make_key env self) out = map Inr (map fst ?sp)" .
  have 2: "if reverse self then sorted (rev (map fst ?sp)) else sorted (map fst ?sp)"
    by (rule py_sorted_order)
  from 1 2 show ?thesis by blast
qed

lemma make_key_length:
  assumes "make_key env self r = Inr k" "sort_tags self \<noteq> []"
  shows "length k = length (sort_tags self)"
proof -
  from assms have "map (get_value env r) (sort_tags self) = map Inr k"
    by (simp add: make_key_def all_or_error_Inr_D)
  then show ?thesis by (metis length_map)
qed

text \<open>
  Claim C4. The sort is stable: whenever the sort filter returns, the rows of every
  composite key appear in the output in the order they had in the input (with either value
  of \<open>reverse\<close>); the output is a rearrangement of the input whose keys ascend
  (descend with \<open>reverse\<close>). The composite key of a row has one component per pattern, in
  the order of the tag list, the component of a pattern being what key extraction returns
  for it (with no tags the key is the row's value list), and composite keys compare
  component by component, the pattern that comes first in the tag list deciding first.
\<close>

theorem sort_is_stable:
  assumes "SortFilter_iter env self = Inr out"
  shows "(\<forall>k. filter (\<lambda>r. make_key env self r = Inr k) out =
              filter (\<lambda>r. make_key env self r = Inr k) (ds_rows (source self)))
       \<and> mset out = mset (ds_rows (source self))
       \<and> (\<exists>keys. map (make_key env self) out = map Inr keys
              \<and> (if reverse self then sorted (rev keys) else sorted keys))
       \<and> (\<forall>r k. sort_tags self \<noteq> [] \<longrightarrow> make_key env self r = Inr k \<longrightarrow>
              map (get_value env r) (sort_tags self) = map Inr k)
       \<and> (\<forall>r. sort_tags self = [] \<longrightarrow> make_key env self r = Inr (row_values r))
       \<and> (\<forall>r1 r2 k1 k2. sort_tags self \<noteq> [] \<longrightarrow>
              make_key env self r1 = Inr k1 \<longrightarrow> make_key env self r2 = Inr k2 \<longrightarrow>
              (k1 < k2 \<longleftrightarrow>
                 (\<exists>i<length (sort_tags self). take i k1 = take i k2 \<and> k1 ! i < k2 ! i)))"
proof (intro conjI allI impI)
  fix k
  show "filter (\<lambda>r. make_key env self r = Inr k) out =
        filter (\<lambda>r. make_key env self r = Inr k) (ds_rows (source self))"
    using assms by (rule iter_stable)
next
  show "mset out = mset (ds_rows (source self))" using assms by (rule iter_mset)
next
  show "\<exists>keys. map (make_key env self) out = map Inr keys
              \<and> (if reverse self then sorted (rev keys) else sorted keys)"
    using assms by (rule iter_keys_sorted)
next
  fix r k
  assume "sort_tags self \<noteq> []" "make_key env self r = Inr k"
  then show "map (get_value env r) (sort_tags self) = map Inr k"
    by (simp add: make_key_def all_or_error_Inr_D)
next
  fix r
  assume "sort_tags self = []"
  then show "make_key env self r = Inr (row_values r)" by (simp add: make_key_def)
next
  fix r1 r2 k1 k2
  assume ne: "sort_tags self \<noteq> []"
    and 1: "make_key env self r1 = Inr k1" and 2: "make_key env self r2 = Inr k2"
  have l1: "length k1 = length (sort_tags self)" using 1 ne by (rule make_key_length)
  have l2: "length k2 = length (sort_tags self)" using 2 ne by (rule make_key_length)
  from l1 l2 have "length k1 = length k2" by simp
  from lex_less_equal_length[OF this] l1
  show "k1 < k2 \<longleftrightarrow> (\<exists>i<length (sort_tags self). take i k1 = take i k2 \<and> k1 ! i < k2 ! i)"
    by simp
qed

theorem sort_is_stable_witness:
  "SortFilter_iter python_model (tagged_filter [''#sector'', ''#org''] False two_key_input) =
     Inr [tagged_row [(''#sector'', ''a''), (''#org'', ''b''), (''#id'', ''3'')],
          tagged_row [(''#sector'', ''a''), (''#org'', ''z''), (''#id'', ''2'')],
          tagged_row [(''#sector'', ''b''), (''#org'', ''x''), (''#id'', ''1'')],
          tagged_row [(''#sector'', ''B''), (''#org'', ''X''), (''#id'', ''4'')]]
   \<and> ds_rows (source (tagged_filter [''#sector'', ''#org''] False two_key_input)) =
     [tagged_row [(''#sector'', ''b''), (''#org'', ''x''), (''#id'', ''1'')],
      tagged_row [(''#sector'', ''a''), (''#org'', ''z''), (''#id'', ''2'')],
      tagged_row [(''#sector'', ''a''), (''#org'', ''b''), (''#id'', ''3'')],
      tagged_row [(''#sector'', ''B''), (''#org'', ''X''), (''#id'', ''4'')]]
   \<and> make_key python_model (tagged_filter [''#sector'', ''#org''] False two_key_input)
        (tagged_row [(''#sector'', ''b''), (''#org'', ''x''), (''#id'', ''1'')]) = Inr [''B'', ''X'']
   \<and> make_key python_model (tagged_filter [''#sector'', ''#org''] False two_key_input)
        (tagged_row [(''#sector'', ''B''), (''#org'', ''X''), (''#id'', ''4'')]) = Inr [''B'', ''X'']
   \<and> make_key python_model (tagged_filter [''#sector'', ''#org''] False two_key_input)
        (tagged_row [(''#sector'', ''a''), (''#org'', ''z''), (''#id'', ''2'')]) = Inr [''A'', ''Z'']
   \<and> map (get_value python_model
          (tagged_row [(''#sector'', ''a''), (''#org'', ''z''), (''#id'', ''2'')]))
        (sort_tags (tagged_filter [''#sector'', ''#org''] False two_key_input)) = map Inr [''A'', ''Z'']
   \<and> ([''A'', ''Z''] < [''B'', ''X''] \<longleftrightarrow>
        (\<exists>i<length (sort_tags (tagged_filter [''#sector'', ''#org''] False two_key_input)).
            take i [''A'', ''Z''] = take i [''B'', ''X''] \<and> [''A'', ''Z''] ! i < [''B'', ''X''] ! i))
   \<and> [''A'', ''Z''] < [''B'', ''X'']
   \<and> mset [tagged_row [(''#sector'', ''a''), (''#org'', ''b''), (''#id'', ''3'')],
          tagged_row [(''#sector'', ''a''), (''#org'', ''z''), (''#id'', ''2'')],
          tagged_row [(''#sector'', ''b''), (''#org'', ''x''), (''#id'', ''1'')],
          tagged_row [(''#sector'', ''B''), (''#org'', ''X''), (''#id'', ''4'')]] =
     mset (ds_rows (source (tagged_filter [''#sector'', ''#org''] False two_key_input)))"
proof -
  let ?self = "tagged_filter [''#sector'', ''#org''] False two_key_input"
  let ?r1 = "tagged_row [(''#sector'', ''b''), (''#org'', ''x''), (''#id'', ''1'')]"
  let ?r2 = "tagged_row [(''#sector'', ''a''), (''#org'', ''z''), (''#id'', ''2'')]"
  let ?r3 = "tagged_row [(''#sector'', ''a''), (''#org'', ''b''), (''#id'', ''3'')]"
  let ?r4 = "tagged_row [(''#sector'', ''B''), (''#org'', ''X''), (''#id'', ''4'')]"
  have ev: "SortFilter_iter python_model ?self = Inr [?r3, ?r2, ?r1, ?r4]" by code_simp
  have rows: "ds_rows (source ?self) = [?r1, ?r2, ?r3, ?r4]"
    by (simp add: tagged_filter_def tagged_dataset_def two_key_input_def)
  have k1: "make_key python_model ?self ?r1 = Inr [''B'', ''X'']" by code_simp
  have k4: "make_key python_model ?self ?r4 = Inr [''B'', ''X'']" by code_simp
  have k2: "make_key python_model ?self ?r2 = Inr [''A'', ''Z'']" by code_simp
  have ne: "sort_tags ?self \<noteq> []" by (simp add: tagged_filter_def)
  have lt: "[''A'', ''Z''] < [''B'', ''X'']" by simp
  note T = sort_is_stable[OF ev]
  from T ne k2 have g: "map (get_value python_model ?r2) (sort_tags ?self) = map Inr [''A'', ''Z'']"
    by blast
  from T ne k2 k1 have c: "[''A'', ''Z''] < [''B'', ''X''] \<longleftrightarrow>
        (\<exists>i<length (sort_tags ?self).
            take i [''A'', ''Z''] = take i [''B'', ''X''] \<and> [''A'', ''Z''] ! i < [''B'', ''X''] ! i)"
    by blast
  from T have m: "mset [?r3, ?r2, ?r1, ?r4] = mset (ds_rows (source ?self))" by blast
  from ev rows k1 k4 k2 g c lt m show ?thesis by (intro conjI)
qed

text \<open>
  Claim C9. The property \<open>columns\<close> of the sort filter is the column list of its
  source, unchanged, before and after iteration, and so for a filter made by the
  constructor from any source.
\<close>

theorem columns_unchanged:
  "SortFilter_columns self = ds_columns (source self)
   \<and> SortFilter_columns (fst (iterate env self)) = ds_columns (source self)
   \<and> source (fst (iterate env self)) = source self
   \<and> (SortFilter_init pattern_list src tags rev_flag = Inr self' \<longrightarrow>
        SortFilter_columns self' = ds_columns src
        \<and> SortFilter_columns (fst (iterate env self')) = ds_columns src)"
  by (auto simp: SortFilter_columns_def iterate_def SortFilter_init_def split: sum.splits)

theorem columns_unchanged_witness:
  "SortFilter_init Inr (tagged_dataset [[(''#org'', ''b''), (''#id'', ''1'')]])
       [plain_pattern ''#org''] False
     = Inr (tagged_filter [''#org''] False [[(''#org'', ''b''), (''#id'', ''1'')]])
   \<and> SortFilter_columns (tagged_filter [''#org''] False [[(''#org'', ''b''), (''#id'', ''1'')]])
     = ds_columns (tagged_dataset [[(''#org'', ''b''), (''#id'', ''1'')]])
   \<and> SortFilter_columns (fst (iterate python_model
        (tagged_filter [''#org''] False [[(''#org'', ''b''), (''#id'', ''1'')]])))
     = ds_columns (tagged_dataset [[(''#org'', ''b''), (''#id'', ''1'')]])"
proof -
  have i: "SortFilter_init Inr (tagged_dataset [[(''#org'', ''b''), (''#id'', ''1'')]])
       [plain_pattern ''#org''] False
     = Inr (tagged_filter [''#org''] False [[(''#org'', ''b''), (''#id'', ''1'')]])"
    by (simp add: SortFilter_init_def tagged_filter_def)
  from columns_unchanged[of "tagged_filter [''#org''] False [[(''#org'', ''b''), (''#id'', ''1'')]]"
      python_model Inr "tagged_dataset [[(''#org'', ''b''), (''#id'', ''1'')]]"
      "[plain_pattern ''#org'']" False
      "tagged_filter [''#org''] False [[(''#org'', ''b''), (''#id'', ''1'')]]"] i
  show ?thesis by blast
qed

lemma make_key_reverse [simp]: "make_key env (self\<lparr>reverse := r\<rparr>) = make_key env self"
  by (simp add: make_key_def fun_eq_iff)

lemma make_key_source [simp]: "make_key env (self\<lparr>source := s\<rparr>) = make_key env self"
  by (simp add: make_key_def fun_eq_iff)

lemma sort_key_rev_distinct:
  assumes "distinct (map f xs)"
  shows "sort_key f (rev xs) = sort_key f xs"
proof (rule sort_key_inj_key_eq)
  show "mset (rev xs) = mset (sort_key f xs)" by simp
  show "inj_on f (set (rev xs))" using assms by (simp add: distinct_map)
  show "sorted (map f (sort_key f xs))" by simp
qed

text \<open>
  Claim C5, as amended. Whenever the sort filter with \<open>reverse=True\<close> returns, its output
  is the whole-sequence reversal of what the filter with \<open>reverse=False\<close> returns on the
  reversed input sequence: keys descend, and rows with equal keys keep their input order. When
  the composite keys of the rows are pairwise distinct it is the reversal of the
  \<open>reverse=False\<close> output on the same input.
\<close>

theorem reverse_sort:
  assumes "SortFilter_iter env (self\<lparr>reverse := True\<rparr>) = Inr out"
  shows "SortFilter_iter env
           (self\<lparr>reverse := False,
                 source := (source self)\<lparr>ds_rows := rev (ds_rows (source self))\<rparr>\<rparr>)
           = Inr (rev out)
       \<and> (\<forall>k. filter (\<lambda>r. make_key env self r = Inr k) out =
              filter (\<lambda>r. make_key env self r = Inr k) (ds_rows (source self)))
       \<and> (distinct (map (make_key env self) (ds_rows (source self))) \<longrightarrow>
            SortFilter_iter env (self\<lparr>reverse := False\<rparr>) = Inr (rev out))"
proof (intro conjI allI impI)
  let ?rows = "ds_rows (source self)"
  from assms obtain keys where keys: "map (make_key env self) ?rows = map Inr keys"
    and out: "out = map snd (py_sorted fst True (zip keys ?rows))"
    by (auto elim!: iter_Inr_keys)
  have len: "length keys = length ?rows" using keys by (metis length_map)
  have rout: "rev out = map snd (sort_key fst (rev (zip keys ?rows)))"
    by (simp add: out py_sorted_def rev_map)
  have "map (make_key env self) (rev ?rows) = map Inr (rev keys)"
    using keys by (simp add: rev_map[symmetric])
  then have k': "all_or_error (map (make_key env self) (rev ?rows)) = Inr (rev keys)"
    by (simp add: all_or_error_Inr_iff)
  have z: "zip (rev keys) (rev ?rows) = rev (zip keys ?rows)"
    using len by (simp add: zip_rev)
  show "SortFilter_iter env
           (self\<lparr>reverse := False,
                 source := (source self)\<lparr>ds_rows := rev (ds_rows (source self))\<rparr>\<rparr>)
           = Inr (rev out)"
    by (simp add: SortFilter_iter_def k' z rout py_sorted_def)
  {
    fix k
    from iter_stable[OF assms, of k]
    show "filter (\<lambda>r. make_key env self r = Inr k) out =
          filter (\<lambda>r. make_key env self r = Inr k) ?rows"
      by simp
  }
  {
    assume d: "distinct (map (make_key env self) ?rows)"
    then have "distinct (map Inr keys :: (exn + string list) list)" using keys by simp
    then have "distinct keys" by (simp add: distinct_map)
    then have "distinct (map fst (zip keys ?rows))" using len by simp
    then have "sort_key fst (rev (zip keys ?rows)) = sort_key fst (zip keys ?rows)"
      by (rule sort_key_rev_distinct)
    then have r2: "rev out = map snd (sort_key fst (zip keys ?rows))" using rout by simp
    have k2: "all_or_error (map (make_key env self) ?rows) = Inr keys"
      using keys by (simp add: all_or_error_Inr_iff)
    show "SortFilter_iter env (self\<lparr>reverse := False\<rparr>) = Inr (rev out)"
      by (simp add: SortFilter_iter_def k2 r2 py_sorted_def)
  }
qed


theorem reverse_sort_witness:
  "SortFilter_iter python_model
     ((tagged_filter [''#org''] False [[(''#org'', ''a'')], [(''#org'', ''b'')]])\<lparr>reverse := True\<rparr>)
     = Inr [tagged_row [(''#org'', ''b'')], tagged_row [(''#org'', ''a'')]]
   \<and> distinct (map (make_key python_model
          (tagged_filter [''#org''] False [[(''#org'', ''a'')], [(''#org'', ''b'')]]))
        (ds_rows (source (tagged_filter [''#org''] False [[(''#org'', ''a'')], [(''#org'', ''b'')]]))))
   \<and> SortFilter_iter python_model
        ((tagged_filter [''#org''] False [[(''#org'', ''a'')], [(''#org'', ''b'')]])\<lparr>reverse := False\<rparr>)
     = Inr (rev [tagged_row [(''#org'', ''b'')], tagged_row [(''#org'', ''a'')]])"
proof -
  have ev: "SortFilter_iter python_model
     ((tagged_filter [''#org''] False [[(''#org'', ''a'')], [(''#org'', ''b'')]])\<lparr>reverse := True\<rparr>)
     = Inr [tagged_row [(''#org'', ''b'')], tagged_row [(''#org'', ''a'')]]"
    by code_simp
  have d: "distinct (map (make_key python_model
          (tagged_filter [''#org''] False [[(''#org'', ''a'')], [(''#org'', ''b'')]]))
        (ds_rows (source (tagged_filter [''#org''] False [[(''#org'', ''a'')], [(''#org'', ''b'')]]))))"
    by code_simp
  from reverse_sort[OF ev] d
  have "SortFilter_iter python_model
        ((tagged_filter [''#org''] False [[(''#org'', ''a'')], [(''#org'', ''b'')]])\<lparr>reverse := False\<rparr>)
     = Inr (rev [tagged_row [(''#org'', ''b'')], tagged_row [(''#org'', ''a'')]])"
    by blast
  with ev d show ?thesis by (intro conjI)
qed

text \<open>
  The claim C5 as stated fails when two rows share a key: with \<open>reverse=True\<close> the
  rows 1 and 2 of key A stay in input order after row 3, while the reversal of the
  \<open>reverse=False\<close> output has them as 2, 1.
\<close>

theorem reverse_keeps_ties:
  "SortFilter_iter python_model (tagged_filter [''#org''] True
     [[(''#org'', ''a''), (''#id'', ''1'')],
      [(''#org'', ''a''), (''#id'', ''2'')],
      [(''#org'', ''b''), (''#id'', ''3'')]]) =
   Inr [tagged_row [(''#org'', ''b''), (''#id'', ''3'')],
        tagged_row [(''#org'', ''a''), (''#id'', ''1'')],
        tagged_row [(''#org'', ''a''), (''#id'', ''2'')]]
   \<and> SortFilter_iter python_model (tagged_filter [''#org''] False
     [[(''#org'', ''a''), (''#id'', ''1'')],
      [(''#org'', ''a''), (''#id'', ''2'')],
      [(''#org'', ''b''), (''#id'', ''3'')]]) =
   Inr [tagged_row [(''#org'', ''a''), (''#id'', ''1'')],
        tagged_row [(''#org'', ''a''), (''#id'', ''2'')],
        tagged_row [(''#org'', ''b''), (''#id'', ''3'')]]
   \<and> [tagged_row [(''#org'', ''b''), (''#id'', ''3'')],
        tagged_row [(''#org'', ''a''), (''#id'', ''1'')],
        tagged_row [(''#org'', ''a''), (''#id'', ''2'')]] \<noteq>
     rev [tagged_row [(''#org'', ''a''), (''#id'', ''1'')],
        tagged_row [(''#org'', ''a''), (''#id'', ''2'')],
        tagged_row [(''#org'', ''b''), (''#id'', ''3'')]]"
  by code_simp

lemma length_zero_padded [simp]: "length (zero_padded w n) = w"
  by (induction w arbitrary: n) auto

lemma digit_char_less: "a < 10 \<Longrightarrow> b < 10 \<Longrightarrow> digit_char a < digit_char b \<longleftrightarrow> a < b"
  by (simp add: digit_char_def less_char_def)

lemma digit_char_eq: "a < 10 \<Longrightarrow> b < 10 \<Longrightarrow> digit_char a = digit_char b \<longleftrightarrow> a = b"
proof
  assume "a < 10" "b < 10" "digit_char a = digit_char b"
  then have "of_char (digit_char a) = (of_char (digit_char b) :: nat)" by simp
  with \<open>a < 10\<close> \<open>b < 10\<close> show "a = b" by (simp add: digit_char_def)
qed simp

lemma lex_append_equal_length:
  fixes xs ys :: "('a::linorder) list"
  assumes "length xs = length ys"
  shows "xs @ us < ys @ vs \<longleftrightarrow> xs < ys \<or> (xs = ys \<and> us < vs)"
  using assms by (induction xs ys rule: list_induct2) auto

lemma div10_eq_iff: "(n::nat) div 10 = m div 10 \<and> n mod 10 = m mod 10 \<longleftrightarrow> n = m"
proof
  assume eq: "n div 10 = m div 10 \<and> n mod 10 = m mod 10"
  have "n = n div 10 * 10 + n mod 10" by simp
  also have "\<dots> = m div 10 * 10 + m mod 10" using eq by simp
  also have "\<dots> = m" by simp
  finally show "n = m" .
qed simp

lemma div10_less: "(n::nat) < 10 * k \<Longrightarrow> n div 10 < k"
  by arith

lemma div10_less_iff:
  "(n::nat) < m \<longleftrightarrow> n div 10 < m div 10 \<or> (n div 10 = m div 10 \<and> n mod 10 < m mod 10)"
proof -
  define a r b s where defs: "a = n div 10" "r = n mod 10" "b = m div 10" "s = m mod 10"
  have n: "n = 10 * a + r" and m: "m = 10 * b + s" and r: "r < 10" and s: "s < 10"
    by (simp_all add: defs)
  have "n < m \<longleftrightarrow> a < b \<or> (a = b \<and> r < s)"
    unfolding n m using r s by linarith
  then show ?thesis by (simp add: defs)
qed

lemma zero_padded_eq:
  "n < 10 ^ w \<Longrightarrow> m < 10 ^ w \<Longrightarrow> zero_padded w n = zero_padded w m \<longleftrightarrow> n = m"
proof (induction w arbitrary: n m)
  case 0
  then show ?case by simp
next
  case (Suc w)
  have n: "n div 10 < 10 ^ w" using Suc.prems(1) by (intro div10_less) simp
  have m: "m div 10 < 10 ^ w" using Suc.prems(2) by (intro div10_less) simp
  have "zero_padded (Suc w) n = zero_padded (Suc w) m \<longleftrightarrow>
        zero_padded w (n div 10) = zero_padded w (m div 10) \<and> digit_char (n mod 10) = digit_char (m mod 10)"
    by simp
  also have "\<dots> \<longleftrightarrow> n div 10 = m div 10 \<and> n mod 10 = m mod 10"
    using Suc.IH[OF n m] by (simp add: digit_char_eq)
  also have "\<dots> \<longleftrightarrow> n = m" by (rule div10_eq_iff)
  finally show ?case .
qed

lemma zero_padded_less:
  "n < 10 ^ w \<Longrightarrow> m < 10 ^ w \<Longrightarrow> zero_padded w n < zero_padded w m \<longleftrightarrow> n < m"
proof (induction w arbitrary: n m)
  case 0
  then show ?case by simp
next
  case (Suc w)
  have n: "n div 10 < 10 ^ w" using Suc.prems(1) by (intro div10_less) simp
  have m: "m div 10 < 10 ^ w" using Suc.prems(2) by (intro div10_less) simp
  have "zero_padded (Suc w) n < zero_padded (Suc w) m \<longleftrightarrow>
        zero_padded w (n div 10) < zero_padded w (m div 10) \<or>
        (zero_padded w (n div 10) = zero_padded w (m div 10) \<and>
         [digit_char (n mod 10)] < [digit_char (m mod 10)])"
    by (simp add: lex_append_equal_length)
  also have "\<dots> \<longleftrightarrow> n div 10 < m div 10 \<or> (n div 10 = m div 10 \<and> n mod 10 < m mod 10)"
    using Suc.IH[OF n m] zero_padded_eq[OF n m] by (simp add: digit_char_less)
  also have "\<dots> \<longleftrightarrow> n < m" by (rule div10_less_iff[symmetric])
  finally show ?case .
qed

lemma zero_padded_head:
  "zero_padded (Suc w) n = digit_char (n div 10 ^ w mod 10) # zero_padded w n"
proof (induction w arbitrary: n)
  case 0
  show ?case by simp
next
  case (Suc w)
  have "zero_padded (Suc (Suc w)) n = zero_padded (Suc w) (n div 10) @ [digit_char (n mod 10)]"
    by simp
  also have "\<dots> = (digit_char (n div 10 div 10 ^ w mod 10) # zero_padded w (n div 10))
       @ [digit_char (n mod 10)]"
    by (simp only: Suc.IH)
  also have "\<dots> = digit_char (n div 10 div 10 ^ w mod 10) # zero_padded (Suc w) n"
    by simp
  also have "n div 10 div 10 ^ w = n div 10 ^ Suc w"
    by (simp only: power_Suc div_mult2_eq)
  finally show ?case .
qed

lemma strip_zeros_zero_padded_4:
  assumes "1000 \<le> y" "y \<le> 9999"
  shows "strip_zeros (zero_padded 4 y) = zero_padded 4 y"
proof -
  have four: "(4::nat) = Suc 3" by simp
  have z: "zero_padded 4 y = digit_char (y div 10 ^ 3 mod 10) # zero_padded 3 y"
    unfolding four by (rule zero_padded_head)
  have p: "(10::nat) ^ 3 = 1000" by simp
  have lo: "0 < y div 1000" using assms(1) by (simp add: div_greater_zero_iff)
  have "y < 10 * 1000" using assms(2) by simp
  then have hi: "y div 1000 < 10" by (rule less_mult_imp_div_less)
  from lo hi have m: "y div 1000 mod 10 = y div 1000" by simp
  have z0: "digit_char 0 = CHR ''0''" by code_simp
  have "digit_char (y div 1000) \<noteq> digit_char 0"
    using digit_char_eq[OF hi, of 0] lo by simp
  then have nz: "digit_char (y div 1000) \<noteq> CHR ''0''" unfolding z0 .
  have z': "zero_padded 4 y = digit_char (y div 1000) # zero_padded 3 y"
    using z by (simp only: p m)
  show ?thesis using nz by (simp add: z' strip_zeros_def)
qed

lemma strftime_nonempty: "strftime_ymd d \<noteq> []"
  by (simp add: strftime_ymd_def)

lemma strftime_less:
  assumes "1000 \<le> year d1" "year d1 \<le> 9999" "month d1 \<le> 12" "day d1 \<le> 31"
      and "1000 \<le> year d2" "year d2 \<le> 9999" "month d2 \<le> 12" "day d2 \<le> 31"
  shows "strftime_ymd d1 < strftime_ymd d2 \<longleftrightarrow>
         (year d1, month d1, day d1) < (year d2, month d2, day d2)"
proof -
  have y: "year d1 < 10 ^ 4" "year d2 < 10 ^ 4" using assms by simp_all
  have m: "month d1 < 10 ^ 2" "month d2 < 10 ^ 2" using assms by simp_all
  have d: "day d1 < 10 ^ 2" "day d2 < 10 ^ 2" using assms by simp_all
  have s1: "strip_zeros (zero_padded 4 (year d1)) = zero_padded 4 (year d1)"
    using assms by (intro strip_zeros_zero_padded_4)
  have s2: "strip_zeros (zero_padded 4 (year d2)) = zero_padded 4 (year d2)"
    using assms by (intro strip_zeros_zero_padded_4)
  have "strftime_ymd d1 < strftime_ymd d2 \<longleftrightarrow>
        zero_padded 4 (year d1) < zero_padded 4 (year d2) \<or>
        (zero_padded 4 (year d1) = zero_padded 4 (year d2) \<and>
         (zero_padded 2 (month d1) < zero_padded 2 (month d2) \<or>
          (zero_padded 2 (month d1) = zero_padded 2 (month d2) \<and>
           zero_padded 2 (day d1) < zero_padded 2 (day d2))))"
    unfolding strftime_ymd_def s1 s2
    by (simp only: lex_append_equal_length length_zero_padded append_Cons append_Nil
        Cons_less_Cons) auto
  also have "\<dots> \<longleftrightarrow> year d1 < year d2 \<or>
        (year d1 = year d2 \<and> (month d1 < month d2 \<or> (month d1 = month d2 \<and> day d1 < day d2)))"
    by (simp only: zero_padded_less[OF y] zero_padded_eq[OF y] zero_padded_less[OF m]
        zero_padded_eq[OF m] zero_padded_less[OF d])
  also have "\<dots> \<longleftrightarrow> (year d1, month d1, day d1) < (year d2, month d2, day d2)"
    by auto
  finally show ?thesis .
qed

lemma endswith_last:
  "endswith s suffix \<Longrightarrow> suffix \<noteq> [] \<Longrightarrow> last s = last suffix"
proof -
  assume e: "endswith s suffix" and ne: "suffix \<noteq> []"
  then have d: "drop (length s - length suffix) s = suffix" and l: "length suffix \<le> length s"
    by (simp_all add: endswith_def)
  from ne l have "length s - length suffix < length s" by (cases suffix) auto
  then have "last (drop (length s - length suffix) s) = last s" by (rule last_drop)
  with d show ?thesis by simp
qed

lemma date_not_numeric:
  assumes "endswith t ''_date''"
  shows "\<not> endswith t ''_num''" and "\<not> endswith t ''_deg''"
proof -
  from endswith_last[OF assms] have l: "last t = CHR ''e''" by simp
  show "\<not> endswith t ''_num''"
  proof
    assume "endswith t ''_num''"
    from endswith_last[OF this] l show False by simp
  qed
  show "\<not> endswith t ''_deg''"
  proof
    assume "endswith t ''_deg''"
    from endswith_last[OF this] l show False by simp
  qed
qed

lemma get_value_date:
  assumes "endswith (tag p) ''_date''"
  shows "get_value env row p =
     (case date_parse env (pattern_get_value env p row) of
        Inr d \<Rightarrow> Inr (str_upper env (strftime_ymd d)) | Inl e \<Rightarrow> Inl e)"
  using assms date_not_numeric[OF assms]
  by (simp add: get_value_def upper_or_empty_def strftime_nonempty split: sum.splits)

lemma iter_error_origin:
  assumes "SortFilter_iter env self = Inl e" "sort_tags self \<noteq> []"
  shows "\<exists>row p. row \<in> set (ds_rows (source self)) \<and> p \<in> set (sort_tags self)
           \<and> get_value env row p = Inl e"
proof -
  from assms(1) have "all_or_error (map (make_key env self) (ds_rows (source self))) = Inl e"
    by (simp add: SortFilter_iter_def split: sum.splits)
  then have "Inl e \<in> set (map (make_key env self) (ds_rows (source self)))"
    by (rule all_or_error_Inl)
  then obtain row where row: "row \<in> set (ds_rows (source self))" "make_key env self row = Inl e"
    by auto
  from row(2) assms(2) have "all_or_error (map (get_value env row) (sort_tags self)) = Inl e"
    by (simp add: make_key_def)
  then have "Inl e \<in> set (map (get_value env row) (sort_tags self))"
    by (rule all_or_error_Inl)
  then obtain p where "p \<in> set (sort_tags self)" "get_value env row p = Inl e" by auto
  with row(1) show ?thesis by blast
qed

lemma iter_error_if_key_fails:
  assumes "row \<in> set (ds_rows (source self))" "p \<in> set (sort_tags self)"
      and "get_value env row p = Inl e"
  shows "\<exists>e'. SortFilter_iter env self = Inl e'"
proof -
  from assms(2) have ne: "sort_tags self \<noteq> []" by (cases "sort_tags self") simp_all
  have "Inl e \<in> set (map (get_value env row) (sort_tags self))"
    unfolding set_map assms(3)[symmetric] using assms(2) by (rule imageI)
  from all_or_error_Inl_ex[OF this]
  obtain e1 where "all_or_error (map (get_value env row) (sort_tags self)) = Inl e1" ..
  then have k: "make_key env self row = Inl e1" using ne by (simp add: make_key_def)
  have "Inl e1 \<in> set (map (make_key env self) (ds_rows (source self)))"
    unfolding set_map k[symmetric] using assms(1) by (rule imageI)
  from all_or_error_Inl_ex[OF this]
  obtain e2 where "all_or_error (map (make_key env self) (ds_rows (source self))) = Inl e2" ..
  then show ?thesis by (simp add: SortFilter_iter_def)
qed

lemma date_error_propagates:
  assumes "endswith (tag p) ''_date''"
      and "date_parse env (pattern_get_value env p row) = Inl e"
  shows "get_value env row p = Inl e"
    and "p \<in> set (sort_tags self) \<Longrightarrow> row \<in> set (ds_rows (source self)) \<Longrightarrow>
         \<exists>e' row' p'. SortFilter_iter env self = Inl e'
            \<and> row' \<in> set (ds_rows (source self)) \<and> p' \<in> set (sort_tags self)
            \<and> get_value env row' p' = Inl e'"
proof -
  show g: "get_value env row p = Inl e" using assms(2) by (simp add: get_value_date[OF assms(1)])
  assume m: "p \<in> set (sort_tags self)" "row \<in> set (ds_rows (source self))"
  then have ne: "sort_tags self \<noteq> []" by (cases "sort_tags self") simp_all
  from iter_error_if_key_fails[OF m(2) m(1) g]
  obtain e' where e': "SortFilter_iter env self = Inl e'" ..
  from iter_error_origin[OF e' ne] e'
  show "\<exists>e' row' p'. SortFilter_iter env self = Inl e'
          \<and> row' \<in> set (ds_rows (source self)) \<and> p' \<in> set (sort_tags self)
          \<and> get_value env row' p' = Inl e'"
    by blast
qed

text \<open>
  Claim C6 fails for dates before the year 1000. Under \<open>#date_date\<close> the values
  \<open>0999-06-01\<close> and \<open>1000-01-01\<close> both parse; \<open>strftime('%Y-%m-%d')\<close> writes the year
  without leading zeros, so the keys are \<open>999-06-01\<close> and \<open>1000-01-01\<close>, the later date
  has the smaller key, and the filter returns the year 1000 before the year 999.
\<close>

theorem early_years_sort_backwards:
  "get_value python_model (tagged_row [(''#date_date'', ''0999-06-01'')])
       (plain_pattern ''#date_date'') = Inr ''999-06-01''
   \<and> get_value python_model (tagged_row [(''#date_date'', ''1000-01-01'')])
       (plain_pattern ''#date_date'') = Inr ''1000-01-01''
   \<and> ''1000-01-01'' < ''999-06-01''
   \<and> SortFilter_iter python_model (tagged_filter [''#date_date''] False
        [[(''#date_date'', ''0999-06-01'')], [(''#date_date'', ''1000-01-01'')]]) =
      Inr [tagged_row [(''#date_date'', ''1000-01-01'')],
           tagged_row [(''#date_date'', ''0999-06-01'')]]"
  by code_simp

lemma recent_dates_sort_chronologically:
  "SortFilter_iter python_model (tagged_filter [''#date_date''] False
     [[(''#date_date'', ''2020-01-15'')], [(''#date_date'', ''2019-12-01'')]]) =
   Inr [tagged_row [(''#date_date'', ''2019-12-01'')],
        tagged_row [(''#date_date'', ''2020-01-15'')]]"
  by code_simp

lemma unparsable_date_raises:
  "SortFilter_iter python_model (tagged_filter [''#date_date''] False
     [[(''#date_date'', ''2020-01-15'')], [(''#date_date'', ''xx'')]]) = Inl ValueError"
  by code_simp

lemma get_value_numeric_fallback:
  assumes "endswith (tag p) ''_num'' \<or> endswith (tag p) ''_deg''"
      and "pattern_get_value env p row = Some v"
      and "float_str env (Some v) = Inl ValueError"
  shows "get_value env row p = Inr (if v = [] then [] else str_upper env v)"
  using assms by (simp add: get_value_def upper_or_empty_def)

lemma get_value_numeric_parsed:
  assumes "endswith (tag p) ''_num'' \<or> endswith (tag p) ''_deg''"
      and "float_str env (pattern_get_value env p row) = Inr s"
  shows "get_value env row p = Inr (str_upper env (zfill 15 s))"
proof -
  have "length (zfill 15 s) \<ge> 15"
    by (cases s) (auto simp: zfill_def Let_def)
  then have "zfill 15 s \<noteq> []" by auto
  with assms show ?thesis by (simp add: get_value_def upper_or_empty_def)
qed

lemma iter_total:
  assumes "\<And>row p. row \<in> set (ds_rows (source self)) \<Longrightarrow> p \<in> set (sort_tags self) \<Longrightarrow>
             \<exists>k. get_value env row p = Inr k"
  shows "\<exists>out. SortFilter_iter env self = Inr out"
proof -
  have "\<exists>keys. all_or_error (map (make_key env self) (ds_rows (source self))) = Inr keys"
  proof (rule all_or_error_total)
    fix x assume "x \<in> set (map (make_key env self) (ds_rows (source self)))"
    then obtain row where row: "row \<in> set (ds_rows (source self))" "x = make_key env self row"
      by auto
    show "\<exists>v. x = Inr v"
    proof (cases "sort_tags self = []")
      case True
      then show ?thesis by (simp add: row(2) make_key_def)
    next
      case False
      have "\<exists>vs. all_or_error (map (get_value env row) (sort_tags self)) = Inr vs"
      proof (rule all_or_error_total)
        fix y assume "y \<in> set (map (get_value env row) (sort_tags self))"
        then obtain p where "p \<in> set (sort_tags self)" "y = get_value env row p" by auto
        with assms[OF row(1)] show "\<exists>v. y = Inr v" by simp
      qed
      with False show ?thesis by (simp add: row(2) make_key_def)
    qed
  qed
  then obtain keys where "all_or_error (map (make_key env self) (ds_rows (source self))) = Inr keys" ..
  then show ?thesis by (simp add: SortFilter_iter_def)
qed

lemma iter_order:
  assumes it: "SortFilter_iter env self = Inr out" and nr: "\<not> reverse self"
      and k1: "make_key env self r1 = Inr k1" and k2: "make_key env self r2 = Inr k2"
      and lt: "k1 < k2"
      and i: "i < length out" "out ! i = r1" and j: "j < length out" "out ! j = r2"
  shows "i < j"
proof (rule ccontr)
  assume "\<not> i < j"
  then have ji: "j \<le> i" by simp
  from iter_keys_sorted[OF it] nr obtain keys
    where keys: "map (make_key env self) out = map Inr keys" and s: "sorted keys"
    by auto
  have len: "length keys = length out" using keys by (metis length_map)
  have "Inr (keys ! i) = map Inr keys ! i" using i(1) len by simp
  also have "\<dots> = make_key env self (out ! i)" using i(1) by (simp add: keys[symmetric])
  finally have a: "keys ! i = k1" using i(2) k1 by simp
  have "Inr (keys ! j) = map Inr keys ! j" using j(1) len by simp
  also have "\<dots> = make_key env self (out ! j)" using j(1) by (simp add: keys[symmetric])
  finally have b: "keys ! j = k2" using j(2) k2 by simp
  from sorted_nth_mono[OF s ji] i(1) len have "keys ! j \<le> keys ! i" by simp
  with a b lt show False by simp
qed

text \<open>
  Claim C7. For a pattern whose hashtag ends in \<open>_num\<close> or \<open>_deg\<close> and a value on
  which \<open>float\<close> raises ValueError, key extraction raises nothing and returns the raw
  string, upper-cased (the empty string for an empty value). The field does not abort the
  run: when every other key extraction of the filter returns, the filter returns. Whatever
  the filter returns is the input rearranged in the order of the composite keys, the key of
  the row having this string at the pattern's position; with the pattern as the only tag
  and no reversal, a row with an unparsable value comes before every row whose unparsable
  value has a greater upper-cased string, which is the lexical order.
\<close>

theorem numeric_fallback:
  assumes n: "endswith (tag p) ''_num'' \<or> endswith (tag p) ''_deg''"
      and v: "pattern_get_value env p row = Some v"
      and f: "float_str env (Some v) = Inl ValueError"
  shows "get_value env row p = Inr (if v = [] then [] else str_upper env v)
     \<and> ((\<forall>r \<in> set (ds_rows (source self)). \<forall>q \<in> set (sort_tags self).
            r \<noteq> row \<or> q \<noteq> p \<longrightarrow> (\<exists>c. get_value env r q = Inr c))
         \<longrightarrow> (\<exists>out. SortFilter_iter env self = Inr out))
     \<and> (SortFilter_iter env self = Inr out \<longrightarrow>
          mset out = mset (ds_rows (source self))
          \<and> (\<exists>keys. map (make_key env self) out = map Inr keys
                \<and> (if reverse self then sorted (rev keys) else sorted keys))
          \<and> (\<forall>i k. i < length (sort_tags self) \<and> sort_tags self ! i = p
                  \<and> make_key env self row = Inr k
                \<longrightarrow> k ! i = (if v = [] then [] else str_upper env v))
          \<and> (sort_tags self = [p] \<and> \<not> reverse self
               \<and> pattern_get_value env p row' = Some v'
               \<and> float_str env (Some v') = Inl ValueError
               \<and> (if v = [] then [] else str_upper env v)
                   < (if v' = [] then [] else str_upper env v')
              \<longrightarrow> (\<forall>i j. i < length out \<and> j < length out \<and> out ! i = row \<and> out ! j = row'
                     \<longrightarrow> i < j)))"
proof (intro conjI impI allI)
  show g: "get_value env row p = Inr (if v = [] then [] else str_upper env v)"
    using n v f by (rule get_value_numeric_fallback)
  {
    assume a: "\<forall>r \<in> set (ds_rows (source self)). \<forall>q \<in> set (sort_tags self).
            r \<noteq> row \<or> q \<noteq> p \<longrightarrow> (\<exists>c. get_value env r q = Inr c)"
    show "\<exists>out. SortFilter_iter env self = Inr out"
    proof (rule iter_total)
      fix r q assume r: "r \<in> set (ds_rows (source self))" and q: "q \<in> set (sort_tags self)"
      show "\<exists>k. get_value env r q = Inr k"
      proof (cases "r = row \<and> q = p")
        case True
        with g show ?thesis by simp
      next
        case False
        with a r q show ?thesis by blast
      qed
    qed
  }
  {
    assume it: "SortFilter_iter env self = Inr out"
    show "mset out = mset (ds_rows (source self))" using it by (rule iter_mset)
    show "\<exists>keys. map (make_key env self) out = map Inr keys
                \<and> (if reverse self then sorted (rev keys) else sorted keys)"
      using it by (rule iter_keys_sorted)
    {
      fix i k
      assume h: "i < length (sort_tags self) \<and> sort_tags self ! i = p
                  \<and> make_key env self row = Inr k"
      then have ne: "sort_tags self \<noteq> []" by auto
      with h have m: "map (get_value env row) (sort_tags self) = map Inr k"
        by (simp add: make_key_def all_or_error_Inr_D)
      then have len: "length k = length (sort_tags self)" by (metis length_map)
      have "Inr (k ! i) = map Inr k ! i" using h len by simp
      also have "\<dots> = get_value env row (sort_tags self ! i)" using h by (simp add: m[symmetric])
      finally show "k ! i = (if v = [] then [] else str_upper env v)" using h g by simp
    }
    {
      fix i j
      assume h: "sort_tags self = [p] \<and> \<not> reverse self
               \<and> pattern_get_value env p row' = Some v'
               \<and> float_str env (Some v') = Inl ValueError
               \<and> (if v = [] then [] else str_upper env v)
                   < (if v' = [] then [] else str_upper env v')"
        and ij: "i < length out \<and> j < length out \<and> out ! i = row \<and> out ! j = row'"
      from h have g': "get_value env row' p = Inr (if v' = [] then [] else str_upper env v')"
        using get_value_numeric_fallback[OF n, of env row' v'] by simp
      have k1: "make_key env self row = Inr [if v = [] then [] else str_upper env v]"
        using h g by (simp add: make_key_def)
      have k2: "make_key env self row' = Inr [if v' = [] then [] else str_upper env v']"
        using h g' by (simp add: make_key_def)
      have lt: "[if v = [] then [] else str_upper env v] < [if v' = [] then [] else str_upper env v']"
        using h by simp
      from h have nr: "\<not> reverse self" by simp
      from ij have i: "i < length out" "out ! i = row" and j: "j < length out" "out ! j = row'"
        by simp_all
      show "i < j" using it nr k1 k2 lt i j by (rule iter_order)
    }
  }
qed

theorem numeric_fallback_witness:
  "(endswith (tag (plain_pattern ''#x_num'')) ''_num''
      \<or> endswith (tag (plain_pattern ''#x_num'')) ''_deg'')
   \<and> pattern_get_value python_model (plain_pattern ''#x_num'') (tagged_row [(''#x_num'', ''abc'')])
        = Some ''abc''
   \<and> float_str python_model (Some ''abc'') = Inl ValueError
   \<and> float_str python_model (Some ''xyz'') = Inl ValueError
   \<and> get_value python_model (tagged_row [(''#x_num'', ''abc'')]) (plain_pattern ''#x_num'')
        = Inr ''ABC''
   \<and> SortFilter_iter python_model (tagged_filter [''#x_num''] False
          [[(''#x_num'', ''xyz'')], [(''#x_num'', ''5'')], [(''#x_num'', ''abc'')]]) =
        Inr [tagged_row [(''#x_num'', ''5'')], tagged_row [(''#x_num'', ''abc'')],
             tagged_row [(''#x_num'', ''xyz'')]]
   \<and> (\<exists>out. SortFilter_iter python_model (tagged_filter [''#x_num''] False
          [[(''#x_num'', ''xyz'')], [(''#x_num'', ''5'')], [(''#x_num'', ''abc'')]]) = Inr out)
   \<and> [tagged_row [(''#x_num'', ''5'')], tagged_row [(''#x_num'', ''abc'')],
        tagged_row [(''#x_num'', ''xyz'')]] ! 1 = tagged_row [(''#x_num'', ''abc'')]
   \<and> [tagged_row [(''#x_num'', ''5'')], tagged_row [(''#x_num'', ''abc'')],
        tagged_row [(''#x_num'', ''xyz'')]] ! 2 = tagged_row [(''#x_num'', ''xyz'')]
   \<and> (1::nat) < 2"
proof -
  let ?p = "plain_pattern ''#x_num''"
  let ?ra = "tagged_row [(''#x_num'', ''abc'')]"
  let ?rx = "tagged_row [(''#x_num'', ''xyz'')]"
  let ?r5 = "tagged_row [(''#x_num'', ''5'')]"
  let ?self = "tagged_filter [''#x_num''] False
          [[(''#x_num'', ''xyz'')], [(''#x_num'', ''5'')], [(''#x_num'', ''abc'')]]"
  have n: "endswith (tag ?p) ''_num'' \<or> endswith (tag ?p) ''_deg''" by code_simp
  have va: "pattern_get_value python_model ?p ?ra = Some ''abc''" by code_simp
  have vx: "pattern_get_value python_model ?p ?rx = Some ''xyz''" by code_simp
  have fa: "float_str python_model (Some ''abc'') = Inl ValueError" by code_simp
  have fx: "float_str python_model (Some ''xyz'') = Inl ValueError" by code_simp
  have ua: "str_upper python_model ''abc'' = ''ABC''" by code_simp
  have ux: "str_upper python_model ''xyz'' = ''XYZ''" by code_simp
  have gx: "get_value python_model ?rx ?p = Inr ''XYZ''" by code_simp
  have g5: "get_value python_model ?r5 ?p = Inr ''0000000000005.0''" by code_simp
  have ev: "SortFilter_iter python_model ?self = Inr [?r5, ?ra, ?rx]" by code_simp
  have rows: "ds_rows (source ?self) = [?rx, ?r5, ?ra]"
    by (simp add: tagged_filter_def tagged_dataset_def)
  have tags: "sort_tags ?self = [?p]" by (simp add: tagged_filter_def)
  have nr: "\<not> reverse ?self" by (simp add: tagged_filter_def)
  have others: "\<forall>r \<in> set (ds_rows (source ?self)). \<forall>q \<in> set (sort_tags ?self).
            r \<noteq> ?ra \<or> q \<noteq> ?p \<longrightarrow> (\<exists>c. get_value python_model r q = Inr c)"
    unfolding rows tags using gx g5 by simp
  have lt: "(if ''abc'' = [] then [] else str_upper python_model ''abc'')
          < (if ''xyz'' = [] then [] else str_upper python_model ''xyz'')"
    by (simp add: ua ux)
  note T = numeric_fallback[OF n va fa, of ?self "[?r5, ?ra, ?rx]" ?rx "''xyz''"]
  from T have 1: "get_value python_model ?ra ?p = Inr ''ABC''" by (simp add: ua)
  from T others have 2: "\<exists>out. SortFilter_iter python_model ?self = Inr out" by blast
  from T ev tags nr vx fx lt
  have 3: "\<forall>i j. i < length [?r5, ?ra, ?rx] \<and> j < length [?r5, ?ra, ?rx]
            \<and> [?r5, ?ra, ?rx] ! i = ?ra \<and> [?r5, ?ra, ?rx] ! j = ?rx \<longrightarrow> i < j"
    by blast
  have p1: "[?r5, ?ra, ?rx] ! 1 = ?ra" and p2: "[?r5, ?ra, ?rx] ! 2 = ?rx" by simp_all
  from 3 p1 p2 have 4: "(1::nat) < 2" by simp
  from n va fa fx 1 ev 2 p1 p2 4 show ?thesis by (intro conjI)
qed

text \<open>
  Claim C2 fails on negative numbers. Under \<open>#value_num\<close> the values -2 and -1 get the
  keys \<open>-000000000002.0\<close> and \<open>-000000000001.0\<close>: \<open>zfill\<close> pads after the sign, the
  key of -1 is the smaller string, and the filter returns -1 before -2.
\<close>

theorem negative_numbers_sort_backwards:
  "get_value python_model (tagged_row [(''#value_num'', ''-2'')]) (plain_pattern ''#value_num'')
     = Inr ''-000000000002.0''
   \<and> get_value python_model (tagged_row [(''#value_num'', ''-1'')]) (plain_pattern ''#value_num'')
     = Inr ''-000000000001.0''
   \<and> ''-000000000001.0'' < ''-000000000002.0''
   \<and> SortFilter_iter python_model (tagged_filter [''#value_num''] False
        [[(''#value_num'', ''-2'')], [(''#value_num'', ''-1'')]]) =
      Inr [tagged_row [(''#value_num'', ''-1'')], tagged_row [(''#value_num'', ''-2'')]]"
  by code_simp

lemma small_naturals_sort_numerically:
  "SortFilter_iter python_model (tagged_filter [''#value_num''] False
     [[(''#value_num'', ''2'')], [(''#value_num'', ''10'')], [(''#value_num'', ''1'')]]) =
   Inr [tagged_row [(''#value_num'', ''1'')], tagged_row [(''#value_num'', ''2'')],
        tagged_row [(''#value_num'', ''10'')]]"
  by code_simp

lemma plain_missing_value_empty:
  assumes "\<not> endswith (tag p) ''_num''" "\<not> endswith (tag p) ''_deg''"
      and "\<not> endswith (tag p) ''_date''" "pattern_get_value env p row = None"
  shows "get_value env row p = Inr []"
  using assms by (simp add: get_value_def upper_or_empty_def)

lemma typed_missing_value_reaches_parser:
  assumes "pattern_get_value env p row = None"
  shows "endswith (tag p) ''_date'' \<Longrightarrow> date_parse env None = Inl e \<Longrightarrow>
           get_value env row p = Inl e"
    and "endswith (tag p) ''_num'' \<or> endswith (tag p) ''_deg'' \<Longrightarrow> float_str env None = Inl e \<Longrightarrow>
           e \<noteq> ValueError \<Longrightarrow> get_value env row p = Inl e"
    and "endswith (tag p) ''_num'' \<or> endswith (tag p) ''_deg'' \<Longrightarrow> float_str env None = Inr s \<Longrightarrow>
           get_value env row p = Inr (str_upper env (zfill 15 s))"
proof -
  show "endswith (tag p) ''_date'' \<Longrightarrow> date_parse env None = Inl e \<Longrightarrow>
           get_value env row p = Inl e"
    using assms by (simp add: get_value_date)
  show "endswith (tag p) ''_num'' \<or> endswith (tag p) ''_deg'' \<Longrightarrow> float_str env None = Inl e \<Longrightarrow>
           e \<noteq> ValueError \<Longrightarrow> get_value env row p = Inl e"
    using assms by (cases e) (simp_all add: get_value_def)
  show "endswith (tag p) ''_num'' \<or> endswith (tag p) ''_deg'' \<Longrightarrow> float_str env None = Inr s \<Longrightarrow>
           get_value env row p = Inr (str_upper env (zfill 15 s))"
    using assms get_value_numeric_parsed[of p env row s] by simp
qed

text \<open>
  Claim C8 fails for a missing value under a typed pattern. A row with no \<open>#when_date\<close>
  column and no \<open>#x_num\<close> column gives these patterns no value; the missing value goes to
  the date parser or to \<open>float\<close> before the final guard is reached, key extraction ends
  with their exception, and so does the sort. Under the plain pattern \<open>#sector\<close> the same
  row gets the empty string.
\<close>

theorem missing_typed_value_raises:
  "pattern_get_value python_model (plain_pattern ''#when_date'') (tagged_row [(''#org'', ''a'')]) = None
   \<and> get_value python_model (tagged_row [(''#org'', ''a'')]) (plain_pattern ''#when_date'')
        = Inl TypeError
   \<and> SortFilter_iter python_model (tagged_filter [''#when_date''] False [[(''#org'', ''a'')]])
        = Inl TypeError
   \<and> pattern_get_value python_model (plain_pattern ''#x_num'') (tagged_row [(''#org'', ''a'')]) = None
   \<and> get_value python_model (tagged_row [(''#org'', ''a'')]) (plain_pattern ''#x_num'')
        = Inl TypeError
   \<and> SortFilter_iter python_model (tagged_filter [''#x_num''] False [[(''#org'', ''a'')]])
        = Inl TypeError
   \<and> pattern_get_value python_model (plain_pattern ''#sector'') (tagged_row [(''#org'', ''a'')]) = None
   \<and> get_value python_model (tagged_row [(''#org'', ''a'')]) (plain_pattern ''#sector'') = Inr []"
  by code_simp

end
